theory Spec2Isabelle
  imports Main "HOL-Library.Sublist" "HOL-Library.AList" "HOL-Library.Word"
begin

section \<open>Errors\<close>

text \<open>
  The exceptions the modelled code raises. A function that can raise returns
  \<open>py_error + 'a\<close>, with \<open>Inl\<close> carrying the exception.
\<close>

datatype py_error =
    IndexError
  | AssertionError
  | ValueError string
  | RuntimeError string
  | NotImplementedError
  | ZeroDivisionError

section \<open>The pipeline partitioner (compute_pipeline.py)\<close>

text \<open>
  An item of a fused operation list is either a plain \<open>Op\<close> or a \<open>FusedOp\<close> holding the
  list \<open>ops\<close> of the elementary operations it replaces. Elementary operations are Python
  objects hashed by identity; \<open>'a\<close> is the type of these identities.
\<close>

datatype 'a op = Op 'a | FusedOp "'a list"

text \<open>\<^verbatim>\<open>fwd.ops if isinstance(fwd, FusedOp) else [fwd]\<close>\<close>

fun ops_of :: "'a op \<Rightarrow> 'a list" where
  "ops_of (Op a) = [a]"
| "ops_of (FusedOp ops) = ops"

datatype 'a self_contained_op =
  SelfContainedOp (fwds: "'a op list") (bwds: "'a op list")

text \<open>
  The body of both inner \<^verbatim>\<open>for op in ops\<close> loops of \<^verbatim>\<open>split_into_self_contained\<close>:
  an operation waiting in the opposite pending set is matched and removed from it,
  any other operation is added to the pending set of the side it came from.
  \<open>match_ops ops waiting own\<close> returns the two sets in the order \<open>(waiting, own)\<close>.
\<close>

fun match_ops :: "'a list \<Rightarrow> 'a set \<Rightarrow> 'a set \<Rightarrow> 'a set \<times> 'a set" where
  "match_ops [] waiting own = (waiting, own)"
| "match_ops (x # ops) waiting own =
     (if x \<in> waiting then match_ops ops (waiting - {x}) own
      else match_ops ops waiting (insert x own))"

text \<open>
  \<^verbatim>\<open>while unmatched_fwd_ops: bwd = bwds.pop(0); used_backwards.append(bwd); ...\<close>
  The arguments are the backward queue, \<open>used_backwards\<close> and the two pending sets;
  \<^verbatim>\<open>pop(0)\<close> on an empty queue raises \<open>IndexError\<close>.
\<close>

fun take_bwds ::
  "'a op list \<Rightarrow> 'a op list \<Rightarrow> 'a set \<Rightarrow> 'a set \<Rightarrow>
   py_error + ('a op list \<times> 'a op list \<times> 'a set \<times> 'a set)" where
  "take_bwds [] used uf ub =
     (if uf = {} then Inr ([], used, uf, ub) else Inl IndexError)"
| "take_bwds (bwd # rest) used uf ub =
     (if uf = {} then Inr (bwd # rest, used, uf, ub)
      else (case match_ops (ops_of bwd) uf ub of
              (uf', ub') \<Rightarrow> take_bwds rest (used @ [bwd]) uf' ub'))"

text \<open>
  \<^verbatim>\<open>while unmatched_bwd_ops: fwd = fwds.pop(0); used_forwards.append(fwd); ...\<close>
  The mirror image on the forward queue.
\<close>

fun take_fwds ::
  "'a op list \<Rightarrow> 'a op list \<Rightarrow> 'a set \<Rightarrow> 'a set \<Rightarrow>
   py_error + ('a op list \<times> 'a op list \<times> 'a set \<times> 'a set)" where
  "take_fwds [] used uf ub =
     (if ub = {} then Inr ([], used, uf, ub) else Inl IndexError)"
| "take_fwds (fwd # rest) used uf ub =
     (if ub = {} then Inr (fwd # rest, used, uf, ub)
      else (case match_ops (ops_of fwd) ub uf of
              (ub', uf') \<Rightarrow> take_fwds rest (used @ [fwd]) uf' ub'))"

lemma take_bwds_length:
  "take_bwds bs used uf ub = Inr (bs', used', uf', ub') \<Longrightarrow>
     length bs' \<le> length bs \<and> (uf \<noteq> {} \<longrightarrow> length bs' < length bs)"
proof (induction bs arbitrary: used uf ub)
  case Nil
  then show ?case by (simp split: if_splits)
next
  case (Cons b bs)
  show ?case
  proof (cases "uf = {}")
    case True
    with Cons.prems show ?thesis by simp
  next
    case False
    obtain u1 u2 where m: "match_ops (ops_of b) uf ub = (u1, u2)"
      by (cases "match_ops (ops_of b) uf ub")
    from Cons.prems False m
    have "take_bwds bs (used @ [b]) u1 u2 = Inr (bs', used', uf', ub')" by simp
    from Cons.IH [OF this] show ?thesis by simp
  qed
qed

lemma take_fwds_length:
  "take_fwds fs used uf ub = Inr (fs', used', uf', ub') \<Longrightarrow>
     length fs' \<le> length fs \<and> (ub \<noteq> {} \<longrightarrow> length fs' < length fs)"
proof (induction fs arbitrary: used uf ub)
  case Nil
  then show ?case by (simp split: if_splits)
next
  case (Cons f fs)
  show ?case
  proof (cases "ub = {}")
    case True
    with Cons.prems show ?thesis by simp
  next
    case False
    obtain u1 u2 where m: "match_ops (ops_of f) ub uf = (u1, u2)"
      by (cases "match_ops (ops_of f) ub uf")
    from Cons.prems False m
    have "take_fwds fs (used @ [f]) u2 u1 = Inr (fs', used', uf', ub')" by simp
    from Cons.IH [OF this] show ?thesis by simp
  qed
qed

lemma take_bwds_keeps_ub:
  "take_bwds bs used {} ub = Inr (bs', used', uf', ub') \<Longrightarrow> ub' = ub"
  by (cases bs) simp_all

text \<open>
  \<^verbatim>\<open>while unmatched_fwd_ops or unmatched_bwd_ops:\<close> with its two inner loops.
  The result is the two queues and the two lists collected for the unit.
\<close>

function match_loop ::
  "'a op list \<Rightarrow> 'a op list \<Rightarrow> 'a op list \<Rightarrow> 'a op list \<Rightarrow> 'a set \<Rightarrow> 'a set \<Rightarrow>
   py_error + ('a op list \<times> 'a op list \<times> 'a op list \<times> 'a op list)" where
  "match_loop fs bs used_forwards used_backwards uf ub =
     (if uf = {} \<and> ub = {} then Inr (fs, bs, used_forwards, used_backwards)
      else (case take_bwds bs used_backwards uf ub of
              Inl e \<Rightarrow> Inl e
            | Inr (bs', used_backwards', uf', ub') \<Rightarrow>
                (case take_fwds fs used_forwards uf' ub' of
                   Inl e \<Rightarrow> Inl e
                 | Inr (fs', used_forwards', uf'', ub'') \<Rightarrow>
                     match_loop fs' bs' used_forwards' used_backwards' uf'' ub'')))"
  by pat_completeness auto
termination
proof (relation "measure (\<lambda>(fs, bs, uf_used, ub_used, uf, ub). length fs + length bs)")
  show "wf (measure (\<lambda>(fs, bs, uf_used, ub_used, uf, ub). length fs + length bs))"
    by simp
next
  fix fs bs used_forwards used_backwards :: "'a op list"
  fix uf ub :: "'a set"
  fix x2 bs' y used_backwards' ya uf' ub' x2a fs' yb used_forwards' yc uf'' ub''
  assume ne: "\<not> (uf = {} \<and> ub = {})"
    and tb: "take_bwds bs used_backwards uf ub = Inr x2"
    and x2: "(bs', y) = x2" "(used_backwards', ya) = y" "(uf', ub') = ya"
    and tf: "take_fwds fs used_forwards uf' ub' = Inr x2a"
    and x2a: "(fs', yb) = x2a" "(used_forwards', yc) = yb" "(uf'', ub'') = yc"
  from tb x2 have tb': "take_bwds bs used_backwards uf ub = Inr (bs', used_backwards', uf', ub')"
    by simp
  from tf x2a have tf': "take_fwds fs used_forwards uf' ub' = Inr (fs', used_forwards', uf'', ub'')"
    by simp
  note lb = take_bwds_length [OF tb'] and lf = take_fwds_length [OF tf']
  have "length fs' + length bs' < length fs + length bs"
  proof (cases "uf = {}")
    case True
    with ne have "ub \<noteq> {}" by simp
    moreover from tb' True have "ub' = ub" by (simp add: take_bwds_keeps_ub)
    ultimately show ?thesis using lb lf by simp
  next
    case False
    then show ?thesis using lb lf by simp
  qed
  then show "((fs', bs', used_forwards', used_backwards', uf'', ub''),
              fs, bs, used_forwards, used_backwards, uf, ub)
             \<in> measure (\<lambda>(fs, bs, uf_used, ub_used, uf, ub). length fs + length bs)"
    by simp
qed

declare match_loop.simps [simp del]

lemma match_loop_stop:
  "match_loop fs bs used_f used_b {} {} = Inr (fs, bs, used_f, used_b)"
  by (subst match_loop.simps) simp

lemma match_loop_step:
  "\<not> (uf = {} \<and> ub = {}) \<Longrightarrow>
   match_loop fs bs used_f used_b uf ub =
     (case take_bwds bs used_b uf ub of
        Inl e \<Rightarrow> Inl e
      | Inr (bs', used_b', uf', ub') \<Rightarrow>
          (case take_fwds fs used_f uf' ub' of
             Inl e \<Rightarrow> Inl e
           | Inr (fs', used_f', uf'', ub'') \<Rightarrow> match_loop fs' bs' used_f' used_b' uf'' ub''))"
  by (subst match_loop.simps) (rule if_not_P)

lemma match_loop_Inr_cases:
  assumes "match_loop fs bs used_f used_b uf ub = Inr r"
  obtains (stop) "uf = {}" "ub = {}" "r = (fs, bs, used_f, used_b)"
  | (step) bs1 usedb1 uf1 ub1 fs1 usedf1 uf2 ub2 where
      "\<not> (uf = {} \<and> ub = {})"
      "take_bwds bs used_b uf ub = Inr (bs1, usedb1, uf1, ub1)"
      "take_fwds fs used_f uf1 ub1 = Inr (fs1, usedf1, uf2, ub2)"
      "match_loop fs1 bs1 usedf1 usedb1 uf2 ub2 = Inr r"
proof (cases "uf = {} \<and> ub = {}")
  case True
  with assms stop show ?thesis by (simp add: match_loop_stop)
next
  case False
  from assms show ?thesis
    unfolding match_loop_step [OF False]
    by (auto split: sum.splits intro: step [OF False])
qed

lemma match_loop_length:
  "match_loop fs bs used_f used_b uf ub = Inr (fs', bs', used_f', used_b') \<Longrightarrow>
     length fs' + length bs' \<le> length fs + length bs"
proof (induction fs bs used_f used_b uf ub rule: match_loop.induct)
  case (1 fs bs used_f used_b uf ub)
  from "1.prems" show ?case
  proof (cases rule: match_loop_Inr_cases)
    case stop
    then show ?thesis by simp
  next
    case (step bs1 usedb1 uf1 ub1 fs1 usedf1 uf2 ub2)
    from "1.IH" [OF step(1) step(2) refl refl refl step(3) refl refl refl step(4)]
    have "length fs' + length bs' \<le> length fs1 + length bs1" .
    with take_bwds_length [OF step(2)] take_fwds_length [OF step(3)] show ?thesis by simp
  qed
qed

text \<open>
  \<^verbatim>\<open>while fwds or bwds:\<close> pops a forward item, seeds \<open>unmatched_fwd_ops\<close> with its
  elementary operations, runs the matching loop and appends the unit. The first
  \<^verbatim>\<open>fwds.pop(0)\<close> raises when only backward items are left.
\<close>

function split_loop ::
  "'a op list \<Rightarrow> 'a op list \<Rightarrow> 'a self_contained_op list \<Rightarrow>
   py_error + 'a self_contained_op list" where
  "split_loop fs bs functions =
     (if fs = [] \<and> bs = [] then Inr functions
      else (case fs of
              [] \<Rightarrow> Inl IndexError
            | fwd # fs1 \<Rightarrow>
                (case match_loop fs1 bs [fwd] [] (set (ops_of fwd)) {} of
                   Inl e \<Rightarrow> Inl e
                 | Inr (fs', bs', used_forwards, used_backwards) \<Rightarrow>
                     split_loop fs' bs'
                       (functions @ [SelfContainedOp used_forwards used_backwards]))))"
  by pat_completeness auto
termination
proof (relation "measure (\<lambda>(fs, bs, functions). length fs + length bs)")
  show "wf (measure (\<lambda>(fs, bs, functions). length fs + length bs))"
    by simp
next
  fix fs bs :: "'a op list" and units :: "'a self_contained_op list"
  fix fwd fs1 x2 fs' y bs' ya used_forwards used_backwards
  assume "fs = fwd # fs1"
    and m: "match_loop fs1 bs [fwd] [] (set (ops_of fwd)) {} = Inr x2"
    and x2: "(fs', y) = x2" "(bs', ya) = y" "(used_forwards, used_backwards) = ya"
  from m x2 have
    "match_loop fs1 bs [fwd] [] (set (ops_of fwd)) {} = Inr (fs', bs', used_forwards, used_backwards)"
    by simp
  from match_loop_length [OF this] \<open>fs = fwd # fs1\<close>
  show "((fs', bs', units @ [SelfContainedOp used_forwards used_backwards]), fs, bs, units)
         \<in> measure (\<lambda>(fs, bs, functions). length fs + length bs)"
    by simp
qed

declare split_loop.simps [simp del]

lemma split_loop_Inr_cases:
  assumes "split_loop fs bs acc = Inr us"
  obtains (stop) "fs = []" "bs = []" "us = acc"
  | (step) fwd fs1 fs' bs' used_f used_b where
      "fs = fwd # fs1"
      "match_loop fs1 bs [fwd] [] (set (ops_of fwd)) {} = Inr (fs', bs', used_f, used_b)"
      "split_loop fs' bs' (acc @ [SelfContainedOp used_f used_b]) = Inr us"
proof (cases "fs = [] \<and> bs = []")
  case True
  with assms stop show ?thesis by (subst (asm) split_loop.simps) simp
next
  case False
  from assms have
    "(case fs of [] \<Rightarrow> Inl IndexError
      | fwd # fs1 \<Rightarrow>
          (case match_loop fs1 bs [fwd] [] (set (ops_of fwd)) {} of
             Inl e \<Rightarrow> Inl e
           | Inr (fs', bs', used_f, used_b) \<Rightarrow>
               split_loop fs' bs' (acc @ [SelfContainedOp used_f used_b]))) = Inr us"
    using False by (subst (asm) split_loop.simps) simp
  then show ?thesis
    by (auto split: list.splits sum.splits intro: step)
qed

text \<open>\<^verbatim>\<open>split_into_self_contained(fwds, bwds)\<close>, starting from \<^verbatim>\<open>functions = []\<close>.\<close>

definition split_into_self_contained ::
  "'a op list \<Rightarrow> 'a op list \<Rightarrow> py_error + 'a self_contained_op list" where
  "split_into_self_contained fs bs = split_loop fs bs []"

text \<open>
  The elementary operations a list of items decomposes to, in order, and the set of
  elementary operations a unit touches on either side.
\<close>

definition elems :: "'a op list \<Rightarrow> 'a list" where
  "elems items = concat (map ops_of items)"

definition unit_ops :: "'a self_contained_op \<Rightarrow> 'a set" where
  "unit_ops u = set (elems (fwds u)) \<union> set (elems (bwds u))"

text \<open>
  The loop invariant of the matching loops, for the sets \<open>P\<close> and \<open>Q\<close> of elementary
  operations collected so far on the two sides: a pending operation has been collected on
  its own side, and an operation that is not pending has been collected on both.
\<close>

definition balanced :: "'a set \<Rightarrow> 'a set \<Rightarrow> 'a set \<Rightarrow> 'a set \<Rightarrow> bool" where
  "balanced P Q waiting own \<longleftrightarrow>
     waiting \<subseteq> P \<and> own \<subseteq> Q \<and> P - waiting \<subseteq> Q \<and> Q - own \<subseteq> P"

text \<open>
  The state in which no \<^verbatim>\<open>pop(0)\<close> can fail: the remaining queues decompose without
  repetition, no remaining backward item is empty, and each pending set holds exactly the
  operations that remain on the other side only.
\<close>

definition ready :: "'a op list \<Rightarrow> 'a op list \<Rightarrow> 'a set \<Rightarrow> 'a set \<Rightarrow> bool" where
  "ready fs bs uf ub \<longleftrightarrow>
     distinct (elems fs) \<and> distinct (elems bs) \<and> [] \<notin> set (map ops_of bs) \<and>
     uf = set (elems bs) - set (elems fs) \<and> ub = set (elems fs) - set (elems bs)"

section \<open>Element types and operation objects\<close>

text \<open>
  Modelled from the spec: the element types of \<^verbatim>\<open>nvte.DType\<close>, an enumeration of the
  compiled extension, which is not among the sources. The sources name \<open>BFloat16\<close>,
  \<open>Float8E4M3\<close> and \<open>Float8E5M2\<close>.
\<close>

datatype DType = Byte | Int32 | Int64 | Float32 | Float16 | BFloat16 | Float8E4M3 | Float8E5M2

text \<open>
  Modelled from the spec: \<^verbatim>\<open>nvte.is_fp8\<close>, a helper of the \<^verbatim>\<open>nvte\<close> package that is not
  among the sources. A type is low-precision when it is one of the two 8-bit floating
  types; a tensor is when its type is.
\<close>

definition is_fp8_dtype :: "DType \<Rightarrow> bool" where
  "is_fp8_dtype d \<longleftrightarrow> d = Float8E4M3 \<or> d = Float8E5M2"

text \<open>
  An operation object as \<^verbatim>\<open>dir\<close>, \<^verbatim>\<open>getattr\<close> and \<^verbatim>\<open>setattr\<close> see it: its attributes
  by name. An attribute value is an \<^verbatim>\<open>nvte.DType\<close>, a string, or anything else. The
  operations of a pipeline are objects in a store \<open>attrs\<close>, from the identity of an
  operation to its attributes. \<^verbatim>\<open>setattr(op, name, value)\<close> replaces the value of an
  attribute the object has and adds the attribute otherwise.
\<close>

datatype attr_value = DTypeValue DType | StrValue string | OtherValue string

type_synonym py_object = "(string \<times> attr_value) list"

definition setattr :: "py_object \<Rightarrow> string \<Rightarrow> attr_value \<Rightarrow> py_object" where
  "setattr obj name v = AList.update name v obj"

section \<open>Operation names (compute_pipeline.py, name_ops)\<close>

text \<open>
  Python's \<^verbatim>\<open>str(i)\<close> for a non-negative integer: its decimal digits, most significant
  first.
\<close>

definition digit_char :: "nat \<Rightarrow> char" where
  "digit_char d = ''0123456789'' ! d"

function str_nat :: "nat \<Rightarrow> string" where
  "str_nat n = (if n < 10 then [digit_char n] else str_nat (n div 10) @ [digit_char (n mod 10)])"
  by pat_completeness auto
termination
  by (relation "measure id") auto

declare str_nat.simps [simp del]

text \<open>The name \<^verbatim>\<open>f"{i}({op.__class__.__name__})"\<close> given to the operation at index \<open>i\<close>.\<close>

definition op_name_of :: "nat \<Rightarrow> string \<Rightarrow> string" where
  "op_name_of i cls = str_nat i @ ''('' @ cls @ '')''"

text \<open>
  \<^verbatim>\<open>for i, op in enumerate(ops): setattr(op, "name", ...)\<close> on the store of operation
  objects; \<open>cls\<close> gives the class name of an operation.
\<close>

fun name_ops_from ::
  "('a \<Rightarrow> string) \<Rightarrow> nat \<Rightarrow> 'a list \<Rightarrow> ('a \<Rightarrow> py_object) \<Rightarrow> ('a \<Rightarrow> py_object)" where
  "name_ops_from cls i [] attrs = attrs"
| "name_ops_from cls i (x # ops) attrs =
     name_ops_from cls (Suc i) ops
       (attrs(x := setattr (attrs x) ''name'' (StrValue (op_name_of i (cls x)))))"

definition name_ops :: "('a \<Rightarrow> string) \<Rightarrow> 'a list \<Rightarrow> ('a \<Rightarrow> py_object) \<Rightarrow> ('a \<Rightarrow> py_object)" where
  "name_ops cls ops attrs = name_ops_from cls 0 ops attrs"

section \<open>Running a self-contained unit (compute_pipeline.py, SelfContainedOp)\<close>

text \<open>
  A \<open>Context\<close> is a Python dict from string keys to tensors, kept as the list of its items
  in insertion order. \<open>dict_update d e\<close> is \<^verbatim>\<open>d |= e\<close>: a key of \<open>e\<close> that \<open>d\<close> has keeps its
  place and takes the new value, a new key is appended. \<open>dict_of\<close> builds a dict from the
  items a comprehension produces.
\<close>

type_synonym 't Context = "(string \<times> 't) list"

definition dict_update :: "('k \<times> 'v) list \<Rightarrow> ('k \<times> 'v) list \<Rightarrow> ('k \<times> 'v) list" where
  "dict_update d e = fold (\<lambda>(k, v). AList.update k v) e d"

definition dict_of :: "('k \<times> 'v) list \<Rightarrow> ('k \<times> 'v) list" where
  "dict_of items = dict_update [] items"

text \<open>\<^verbatim>\<open>{op_name + name: tensor for name, tensor in ctx.items()}\<close>\<close>

definition prefix_ctx :: "string \<Rightarrow> 't Context \<Rightarrow> 't Context" where
  "prefix_ctx op_name ctx = dict_of (map (\<lambda>(name, tensor). (op_name @ name, tensor)) ctx)"

text \<open>
  \<^verbatim>\<open>{name[len(op_name):]: tensor for name, tensor in ctx.items() if name.startswith(op_name)}\<close>
\<close>

definition strip_ctx :: "string \<Rightarrow> 't Context \<Rightarrow> 't Context" where
  "strip_ctx op_name ctx =
     dict_of (map (\<lambda>(name, tensor). (drop (length op_name) name, tensor))
                  (filter (\<lambda>(name, tensor). prefix op_name name) ctx))"

text \<open>
  \<open>SelfContainedOp.forward\<close>. The kernels \<open>op.forward\<close> of the operations are the parameter
  \<open>op_forward\<close>: an operation and its input give its output and the context it saves;
  \<open>names a\<close> is \<^verbatim>\<open>getattr(op, "name")\<close> for the operation \<open>a\<close>. The
  context of an operation that is not a \<open>FusedOp\<close> is prefixed with its name before it is
  merged into \<open>full_ctx\<close>.
\<close>

fun forward_ctx :: "('a \<Rightarrow> string) \<Rightarrow> 'a op \<Rightarrow> 't Context \<Rightarrow> 't Context" where
  "forward_ctx names (FusedOp ops) ctx = ctx"
| "forward_ctx names (Op a) ctx = prefix_ctx (names a) ctx"

fun forward_loop ::
  "('a \<Rightarrow> string) \<Rightarrow> ('a op \<Rightarrow> 't \<Rightarrow> 't \<times> 't Context) \<Rightarrow> 'a op list \<Rightarrow> 't \<Rightarrow> 't Context \<Rightarrow>
   't \<times> 't Context" where
  "forward_loop names op_forward [] x full_ctx = (x, full_ctx)"
| "forward_loop names op_forward (op # ops) x full_ctx =
     (case op_forward op x of
        (y, ctx) \<Rightarrow>
          forward_loop names op_forward ops y (dict_update full_ctx (forward_ctx names op ctx)))"

definition SelfContainedOp_forward ::
  "('a \<Rightarrow> string) \<Rightarrow> ('a op \<Rightarrow> 't \<Rightarrow> 't \<times> 't Context) \<Rightarrow> 'a self_contained_op \<Rightarrow> 't \<Rightarrow>
   't \<times> 't Context" where
  "SelfContainedOp_forward names op_forward u x = forward_loop names op_forward (fwds u) x []"

text \<open>
  \<open>SelfContainedOp.backward\<close>. The first loop collects a context for every backward item:
  the whole unit context for a \<open>FusedOp\<close>, the entries under its name, with the name
  stripped, for any other operation. The second loop runs \<open>op.backward\<close> (the parameter
  \<open>op_backward\<close>) over \<^verbatim>\<open>list(zip(self.bwds, ctxs))[::-1]\<close>, threading \<open>dy\<close> and
  appending the gradients to \<open>full_grads\<close>.
\<close>

fun backward_ctx :: "('a \<Rightarrow> string) \<Rightarrow> 'a op \<Rightarrow> 't Context \<Rightarrow> 't Context" where
  "backward_ctx names (FusedOp ops) ctx = ctx"
| "backward_ctx names (Op a) ctx = strip_ctx (names a) ctx"

fun backward_loop ::
  "('a op \<Rightarrow> 't Context \<Rightarrow> 't \<Rightarrow> 't \<times> 't list) \<Rightarrow> ('a op \<times> 't Context) list \<Rightarrow> 't \<Rightarrow> 't list \<Rightarrow>
   't \<times> 't list" where
  "backward_loop op_backward [] dy full_grads = (dy, full_grads)"
| "backward_loop op_backward ((op, ctx) # rest) dy full_grads =
     (case op_backward op ctx dy of
        (dy', grads) \<Rightarrow> backward_loop op_backward rest dy' (full_grads @ grads))"

definition SelfContainedOp_backward ::
  "('a \<Rightarrow> string) \<Rightarrow> ('a op \<Rightarrow> 't Context \<Rightarrow> 't \<Rightarrow> 't \<times> 't list) \<Rightarrow> 'a self_contained_op \<Rightarrow>
   't Context \<Rightarrow> 't \<Rightarrow> 't \<times> 't list" where
  "SelfContainedOp_backward names op_backward u ctx dy =
     (let ctxs = map (\<lambda>op. backward_ctx names op ctx) (bwds u)
      in backward_loop op_backward (rev (zip (bwds u) ctxs)) dy [])"

text \<open>
  The context each forward item returned while the unit ran forward from \<open>x\<close>, and the
  operations of a list that are not fused.
\<close>

fun saved_ctxs :: "('a op \<Rightarrow> 't \<Rightarrow> 't \<times> 't Context) \<Rightarrow> 'a op list \<Rightarrow> 't \<Rightarrow> ('a op \<times> 't Context) list" where
  "saved_ctxs op_forward [] x = []"
| "saved_ctxs op_forward (op # ops) x =
     (case op_forward op x of (y, ctx) \<Rightarrow> (op, ctx) # saved_ctxs op_forward ops y)"




definition report_backward :: "nat op \<Rightarrow> int Context \<Rightarrow> int \<Rightarrow> int \<times> int list" where
  "report_backward op ctx dy = (dy, map snd ctx)"

definition colliding_forward :: "nat op \<Rightarrow> int \<Rightarrow> int \<times> int Context" where
  "colliding_forward op x =
     (case op of Op a \<Rightarrow> (x + 1, [(''x'', x)])
               | FusedOp ops \<Rightarrow> (2 * x, [(''0(Gemm)x'', 99)]))"

definition demo_names :: "nat \<Rightarrow> string" where
  "demo_names a =
     (case map_of (name_ops (\<lambda>a. ''Gemm'') [0, 1, 2, 3] (\<lambda>a. []) a) ''name'' of
        Some (StrValue n) \<Rightarrow> n
      | _ \<Rightarrow> '''')"


definition demo_backward :: "nat op \<Rightarrow> int Context \<Rightarrow> int \<Rightarrow> int \<times> int list" where
  "demo_backward op ctx dy =
     (case op of Op a \<Rightarrow> (10 * dy + int a, [int a])
               | FusedOp ops \<Rightarrow> (10 * dy + 9, map int ops))"

section \<open>Squishing tensors (compute_pipeline_function.py)\<close>

text \<open>
  A \<^verbatim>\<open>torch.Tensor\<close> as far as \<^verbatim>\<open>_squish\<close> and \<^verbatim>\<open>_unsquish\<close> see it: the declared element
  type, the sizes and strides of its dimensions and its storage offset (both counted in
  elements), and the bytes of its storage. \<open>dtype_name\<close> is the name PyTorch prints for an
  element type.
\<close>

datatype torch_dtype =
  int8 | uint8 | int16 | int32 | int64 | float16 | bfloat16 | float32 | float64

fun element_size :: "torch_dtype \<Rightarrow> nat" where
  "element_size int8 = 1"
| "element_size uint8 = 1"
| "element_size int16 = 2"
| "element_size int32 = 4"
| "element_size int64 = 8"
| "element_size float16 = 2"
| "element_size bfloat16 = 2"
| "element_size float32 = 4"
| "element_size float64 = 8"

fun dtype_name :: "torch_dtype \<Rightarrow> string" where
  "dtype_name int8 = ''Char''"
| "dtype_name uint8 = ''Byte''"
| "dtype_name int16 = ''Short''"
| "dtype_name int32 = ''Int''"
| "dtype_name int64 = ''Long''"
| "dtype_name float16 = ''Half''"
| "dtype_name bfloat16 = ''BFloat16''"
| "dtype_name float32 = ''Float''"
| "dtype_name float64 = ''Double''"

record torch_tensor =
  dtype :: torch_dtype
  shape :: "nat list"
  strides :: "nat list"
  storage_offset :: nat
  storage :: "8 word list"

definition numel :: "torch_tensor \<Rightarrow> nat" where
  "numel t = prod_list (shape t)"

text \<open>
  \<^verbatim>\<open>Tensor.view(dtype)\<close> of the PyTorch library reinterprets the same storage under another
  element type. With the same element size the sizes, strides and offset stay. With a
  different element size the tensor must have a dimension and unit stride in the last
  one; the last size, the other strides and the offset are scaled by the ratio of the
  element sizes, and for a larger element each of them must be divisible by the ratio.
  PyTorch checks, in this order, the last size, the offset, the last stride and the other
  strides from the first on, and raises \<^verbatim>\<open>RuntimeError\<close>.
\<close>

definition different_sizes :: "torch_dtype \<Rightarrow> torch_dtype \<Rightarrow> string" where
  "different_sizes old new =
     '' to view '' @ dtype_name old @ '' as '' @ dtype_name new @ '' (different element sizes)''"

definition view :: "torch_tensor \<Rightarrow> torch_dtype \<Rightarrow> py_error + torch_tensor" where
  "view t d =
     (let old = element_size (dtype t); new = element_size d; why = different_sizes (dtype t) d in
      if dtype t = d then Inr t
      else if new = old then Inr (t\<lparr>dtype := d\<rparr>)
      else if shape t = [] then Inl (RuntimeError (''self.dim() cannot be 0'' @ why))
      else if new < old then
        (let size_ratio = old div new in
         if last (strides t) \<noteq> 1 then Inl (RuntimeError (''self.stride(-1) must be 1'' @ why))
         else
           Inr (t\<lparr>dtype := d,
                  shape := butlast (shape t) @ [last (shape t) * size_ratio],
                  strides := map (\<lambda>s. s * size_ratio) (butlast (strides t)) @ [1],
                  storage_offset := size_ratio * storage_offset t\<rparr>))
      else
        (let size_ratio = new div old in
         if last (shape t) mod size_ratio \<noteq> 0 then
           Inl (RuntimeError (''self.size(-1) must be divisible by '' @ str_nat size_ratio @ why @
                              '', but got '' @ str_nat (last (shape t))))
         else if storage_offset t mod size_ratio \<noteq> 0 then
           Inl (RuntimeError (''self.storage_offset() must be divisible by '' @
                              str_nat size_ratio @ why @
                              '', but got '' @ str_nat (storage_offset t)))
         else if last (strides t) \<noteq> 1 then
           Inl (RuntimeError (''self.stride(-1) must be 1'' @ why))
         else
           (case find (\<lambda>i. strides t ! i mod size_ratio \<noteq> 0) [0 ..< length (strides t) - 1] of
              Some i \<Rightarrow>
                Inl (RuntimeError (''self.stride('' @ str_nat i @ '') must be divisible by '' @
                                   str_nat size_ratio @ why @
                                   '', but got '' @ str_nat (strides t ! i)))
            | None \<Rightarrow>
                Inr (t\<lparr>dtype := d,
                       shape := butlast (shape t) @ [last (shape t) div size_ratio],
                       strides := map (\<lambda>s. s div size_ratio) (butlast (strides t)) @ [1],
                       storage_offset := storage_offset t div size_ratio\<rparr>))))"

text \<open>
  \<^verbatim>\<open>SQUISH_TABLE\<close>, and \<^verbatim>\<open>UNSQUISH_TABLE = {v: k for k, v in SQUISH_TABLE.items()}\<close>.
\<close>

definition SQUISH_TABLE :: "(torch_dtype \<times> torch_dtype) list" where
  "SQUISH_TABLE = [(int8, float16), (bfloat16, float32), (float32, float64)]"

definition UNSQUISH_TABLE :: "(torch_dtype \<times> torch_dtype) list" where
  "UNSQUISH_TABLE = map (\<lambda>(k, v). (v, k)) SQUISH_TABLE"

text \<open>
  \<^verbatim>\<open>_unsquish\<close> asserts that the type is in its table; \<^verbatim>\<open>_squish\<close> raises
  \<^verbatim>\<open>RuntimeError\<close> for a type outside its table. Both replace \<^verbatim>\<open>t.data\<close> by its view,
  returned here as the new tensor.
\<close>

definition unsquish :: "torch_tensor \<Rightarrow> py_error + torch_tensor" where
  "unsquish t =
     (case map_of UNSQUISH_TABLE (dtype t) of
        None \<Rightarrow> Inl AssertionError
      | Some d \<Rightarrow> view t d)"

definition squish :: "torch_tensor \<Rightarrow> py_error + torch_tensor" where
  "squish t =
     (case map_of SQUISH_TABLE (dtype t) of
        Some d \<Rightarrow> view t d
      | None \<Rightarrow> Inl (RuntimeError ''Invalid dtype of gradient for FP8 tensor.''))"

section \<open>The backward of a unit (compute_pipeline_function.py)\<close>

text \<open>
  An \<^verbatim>\<open>nvte.Tensor\<close>: the element type and the four tensors it packs.
\<close>

record nvte_tensor =
  te_dtype :: DType
  data :: torch_tensor
  amax :: torch_tensor
  scale :: torch_tensor
  scale_inv :: torch_tensor

definition is_fp8 :: "nvte_tensor \<Rightarrow> bool" where
  "is_fp8 t = is_fp8_dtype (te_dtype t)"

text \<open>
  \<^verbatim>\<open>make_nvte_tensor\<close> (nvte/_common.py); the table \<^verbatim>\<open>torch_to_te_dtype\<close> is a parameter.
\<close>

definition empty_tensor :: torch_tensor where
  "empty_tensor = \<lparr>dtype = float32, shape = [0], strides = [1], storage_offset = 0,
                    storage = []\<rparr>"

definition make_nvte_tensor :: "(torch_dtype \<Rightarrow> DType) \<Rightarrow> torch_tensor \<Rightarrow> nvte_tensor" where
  "make_nvte_tensor torch_to_te_dtype t =
     \<lparr>te_dtype = torch_to_te_dtype (dtype t), data = t,
      amax = empty_tensor, scale = empty_tensor, scale_inv = empty_tensor\<rparr>"

text \<open>
  A \<^verbatim>\<open>BackwardComm\<close> object has one field, \<^verbatim>\<open>nvte_grad_output\<close>, initially \<^verbatim>\<open>None\<close>. The
  objects live in a store indexed by address. \<open>function_ctx\<close> holds the attributes that
  \<^verbatim>\<open>ComputePipelineFunction.forward\<close> sets on \<^verbatim>\<open>ctx\<close>.
\<close>

type_synonym comm_store = "nat \<Rightarrow> nvte_tensor option"

record ('op, 'c) function_ctx =
  nvte_ctx :: 'c
  nvte_op :: 'op
  nvte_preceding_backward_comm :: nat
  nvte_upcoming_backward_comm :: "nat option"
  nvte_unsquish_incoming_dgrad :: bool
  nvte_squish_outgoing_dgrad :: bool

text \<open>
  \<^verbatim>\<open>apply\<close> gives unit \<open>i\<close> of \<^verbatim>\<open>pipeline.functions\<close> its \<^verbatim>\<open>upcoming_backward\<close>: none for
  \<open>i = 0\<close>, otherwise the \<^verbatim>\<open>next_upcoming_backward\<close> created for unit \<open>i - 1\<close> (the
  \<^verbatim>\<open>BackwardComm\<close> created for unit \<open>i\<close> has address \<open>i\<close>).
\<close>

definition upcoming_backward :: "nat \<Rightarrow> nat option" where
  "upcoming_backward i = (if i = 0 then None else Some (i - 1))"

text \<open>
  \<^verbatim>\<open>ComputePipelineFunction.backward\<close>, in its three steps: the real incoming gradient, the
  hand-over of the produced data gradient to the upcoming backward (or the assertion, when
  there is none), and the whole function. \<^verbatim>\<open>op.backward\<close> is the parameter \<open>op_backward\<close>
  and \<^verbatim>\<open>Tensor.contiguous\<close> of the PyTorch library the parameter \<open>contiguous\<close>. The result
  is the store of \<^verbatim>\<open>BackwardComm\<close> objects as the call leaves it, also when it raises, and
  the exception raised or the tuple returned.

  \<^verbatim>\<open>exposed_dgrad\<close> is the object \<^verbatim>\<open>data_grad.data\<close>, and \<^verbatim>\<open>_squish\<close> changes it in place: the
  gradient that has just been stored in the \<^verbatim>\<open>BackwardComm\<close> of the upcoming backward holds
  the squished tensor afterwards. The tensors that \<^verbatim>\<open>op.backward\<close> returns are taken to be
  objects of their own, shared with no other tensor of the store.
\<close>

definition real_gradient ::
  "(torch_dtype \<Rightarrow> DType) \<Rightarrow> (torch_tensor \<Rightarrow> torch_tensor) \<Rightarrow> ('op, 'c) function_ctx \<Rightarrow>
   comm_store \<Rightarrow> torch_tensor \<Rightarrow> py_error + nvte_tensor" where
  "real_gradient torch_to_te_dtype contiguous ctx comms grad_output =
     (case comms (nvte_preceding_backward_comm ctx) of
        None \<Rightarrow>
          (let grad_output = contiguous grad_output in
           if nvte_unsquish_incoming_dgrad ctx then
             (case unsquish grad_output of
                Inl e \<Rightarrow> Inl e
              | Inr g \<Rightarrow> Inr (make_nvte_tensor torch_to_te_dtype g))
           else Inr (make_nvte_tensor torch_to_te_dtype grad_output))
      | Some nvte_grad \<Rightarrow> Inr nvte_grad)"

definition store_gradient ::
  "('op, 'c) function_ctx \<Rightarrow> comm_store \<Rightarrow> nvte_tensor \<Rightarrow> py_error + comm_store" where
  "store_gradient ctx comms data_grad =
     (case nvte_upcoming_backward_comm ctx of
        None \<Rightarrow> if is_fp8 data_grad then Inl AssertionError else Inr comms
      | Some upcoming \<Rightarrow> Inr (comms(upcoming := Some data_grad)))"

definition squish_in_place ::
  "('op, 'c) function_ctx \<Rightarrow> comm_store \<Rightarrow> nvte_tensor \<Rightarrow> torch_tensor \<Rightarrow> comm_store" where
  "squish_in_place ctx comms data_grad squished =
     (case nvte_upcoming_backward_comm ctx of
        None \<Rightarrow> comms
      | Some upcoming \<Rightarrow> comms(upcoming := Some (data_grad\<lparr>data := squished\<rparr>)))"

definition backward ::
  "(torch_dtype \<Rightarrow> DType) \<Rightarrow> (torch_tensor \<Rightarrow> torch_tensor) \<Rightarrow>
   ('op \<Rightarrow> 'c \<Rightarrow> nvte_tensor \<Rightarrow> nvte_tensor \<times> nvte_tensor list) \<Rightarrow>
   ('op, 'c) function_ctx \<Rightarrow> comm_store \<Rightarrow> torch_tensor \<Rightarrow>
   comm_store \<times> (py_error + torch_tensor option list)" where
  "backward torch_to_te_dtype contiguous op_backward ctx comms grad_output =
     (case real_gradient torch_to_te_dtype contiguous ctx comms grad_output of
        Inl e \<Rightarrow> (comms, Inl e)
      | Inr nvte_grad \<Rightarrow>
          (case op_backward (nvte_op ctx) (nvte_ctx ctx) nvte_grad of
             (data_grad, param_grads) \<Rightarrow>
               (case store_gradient ctx comms data_grad of
                  Inl e \<Rightarrow> (comms, Inl e)
                | Inr comms' \<Rightarrow>
                    if \<not> list_all (\<lambda>g. \<not> is_fp8 g) param_grads then (comms', Inl AssertionError)
                    else if nvte_squish_outgoing_dgrad ctx then
                      (case squish (data data_grad) of
                         Inl e \<Rightarrow> (comms', Inl e)
                       | Inr exposed_dgrad \<Rightarrow>
                           (squish_in_place ctx comms' data_grad exposed_dgrad,
                            Inr (map Some (exposed_dgrad # map data param_grads) @
                                   [None, None, None])))
                    else
                      (comms',
                       Inr (map Some (data data_grad # map data param_grads) @
                              [None, None, None])))))"

text \<open>An example kernel that returns 8-bit gradients.\<close>

definition fp8_backward :: "unit \<Rightarrow> unit \<Rightarrow> nvte_tensor \<Rightarrow> nvte_tensor \<times> nvte_tensor list" where
  "fp8_backward op saved grad = (grad\<lparr>te_dtype := Float8E5M2\<rparr>, [grad\<lparr>te_dtype := Float8E4M3\<rparr>])"

section \<open>Pipeline construction (compute_pipeline.py, ComputePipeline)\<close>

text \<open>
  \<^verbatim>\<open>force_use_bf16\<close>: the body of the inner loop for one attribute name, the loop over the
  attribute names of one operation that end in \<^verbatim>\<open>_dtype\<close>, and the loop over the
  operations, which are objects in the store \<open>attrs\<close>.
\<close>

definition force_use_bf16_attr :: "string \<Rightarrow> py_object \<Rightarrow> py_object" where
  "force_use_bf16_attr dtype_attribute op =
     (case map_of op dtype_attribute of
        Some (DTypeValue attr_val) \<Rightarrow>
          if is_fp8_dtype attr_val then setattr op dtype_attribute (DTypeValue BFloat16)
          else op
      | _ \<Rightarrow> op)"

definition force_use_bf16_op :: "py_object \<Rightarrow> py_object" where
  "force_use_bf16_op op =
     (let attributes = map fst op;
          dtype_attributes = filter (suffix ''_dtype'') attributes
      in fold force_use_bf16_attr dtype_attributes op)"

fun force_use_bf16 :: "'a list \<Rightarrow> ('a \<Rightarrow> py_object) \<Rightarrow> ('a \<Rightarrow> py_object)" where
  "force_use_bf16 [] attrs = attrs"
| "force_use_bf16 (op # ops) attrs = force_use_bf16 ops (attrs(op := force_use_bf16_op (attrs op)))"

text \<open>
  \<^verbatim>\<open>ComputePipeline.__init__\<close> on the copied operation list: \<open>name_ops\<close> and
  \<open>force_use_bf16\<close> change the operation objects of the one store \<open>attrs\<close>, in this order.
  \<^verbatim>\<open>get_fused_op_list\<close> (fusions.py is not among the sources) is a parameter that sees the
  operation objects as they are when it is called; \<^verbatim>\<open>model_parallel_transform\<close> raises
  \<^verbatim>\<open>NotImplementedError\<close>. \<open>op_attrs\<close> is the store when the constructor returns.
\<close>

record Environment =
  fp8_enabled :: bool
  world_size :: int

record 'a compute_pipeline =
  inf :: "'a op list"
  "functions" :: "'a self_contained_op list"
  pipeline_forward :: "'a op list"
  pipeline_backward :: "'a op list"
  op_attrs :: "'a \<Rightarrow> py_object"

definition ComputePipeline_init ::
  "('a \<Rightarrow> string) \<Rightarrow> (('a \<Rightarrow> py_object) \<Rightarrow> 'a list \<Rightarrow> string \<Rightarrow> 'a op list) \<Rightarrow>
   'a list \<Rightarrow> ('a \<Rightarrow> py_object) \<Rightarrow> Environment \<Rightarrow> py_error + 'a compute_pipeline" where
  "ComputePipeline_init cls get_fused_op_list ops attrs env =
     (let attrs = name_ops cls ops attrs;
          attrs = (if \<not> fp8_enabled env then force_use_bf16 ops attrs else attrs)
      in if world_size env > 1 then Inl NotImplementedError
         else
           (let inf = get_fused_op_list attrs ops ''inference'' in
            case split_into_self_contained
                   (get_fused_op_list attrs ops ''forward'')
                   (get_fused_op_list attrs ops ''backward'') of
              Inl e \<Rightarrow> Inl e
            | Inr fs \<Rightarrow>
                Inr \<lparr>inf = inf, functions = fs,
                     pipeline_forward = concat (map fwds fs),
                     pipeline_backward = concat (map bwds fs),
                     op_attrs = attrs\<rparr>))"

text \<open>What \<^verbatim>\<open>force_use_bf16\<close> does to one attribute value.\<close>

definition downgrade :: "attr_value \<Rightarrow> attr_value" where
  "downgrade v =
     (case v of DTypeValue d \<Rightarrow> if is_fp8_dtype d then DTypeValue BFloat16 else v | _ \<Rightarrow> v)"

text \<open>An example: no fusion, and operations with 8-bit type annotations.\<close>

definition no_fusion :: "(nat \<Rightarrow> py_object) \<Rightarrow> nat list \<Rightarrow> string \<Rightarrow> nat op list" where
  "no_fusion attrs ops mode = map Op ops"

definition demo_attrs :: "nat \<Rightarrow> py_object" where
  "demo_attrs a = [(''x_dtype'', DTypeValue Float8E4M3), (''input_type'', DTypeValue Float8E4M3)]"

section \<open>Operation descriptors (sequential_new/common_back/ops.py)\<close>

subsection \<open>Parallelism and the distributed group size\<close>

text \<open>
  Modelled from the spec: the members of \<^verbatim>\<open>PType\<close> (enums.py is not among the sources),
  as \<^verbatim>\<open>ParallelismClass\<close> names them; then the pairs of \<^verbatim>\<open>ParallelismClass\<close> that
  \<^verbatim>\<open>Gemm\<close> and \<^verbatim>\<open>Bias\<close> look at.
\<close>

datatype PType = NA | NRS | NCS | PA

type_synonym Parallelism = "PType \<times> PType"

definition NORMAL :: Parallelism where "NORMAL = (NA, NA)"
definition ROWP :: Parallelism where "ROWP = (NRS, NRS)"
definition COLP :: Parallelism where "COLP = (NCS, NCS)"
definition CGEMM :: Parallelism where "CGEMM = (NA, NCS)"
definition RGEMM :: Parallelism where "RGEMM = (NCS, PA)"

text \<open>
  The private attributes of \<^verbatim>\<open>Op\<close> start as \<^verbatim>\<open>Unset()\<close>. The property
  \<^verbatim>\<open>parallellism\<close> asserts that its attribute is set; \<^verbatim>\<open>dist_group_size\<close> asserts the
  same and raises \<^verbatim>\<open>ValueError\<close> for an operation without a distributed group.
\<close>

datatype 'a attribute = Unset | Value 'a

record OpBase =
  parallellism_attr :: "Parallelism attribute"
  dist_group_size_attr :: "int option attribute"
  input_shape_attr :: "int list attribute"

definition parallellism :: "'a OpBase_scheme \<Rightarrow> py_error + Parallelism" where
  "parallellism self =
     (case parallellism_attr self of Unset \<Rightarrow> Inl AssertionError | Value p \<Rightarrow> Inr p)"

definition dist_group_size :: "'a OpBase_scheme \<Rightarrow> py_error + int" where
  "dist_group_size self =
     (case dist_group_size_attr self of
        Unset \<Rightarrow> Inl AssertionError
      | Value None \<Rightarrow>
          Inl (ValueError ''Operation is not distributed, but distributed group size is requested'')
      | Value (Some n) \<Rightarrow> Inr n)"

subsection \<open>Gemm and Bias\<close>

record Gemm = OpBase +
  in_features :: int
  out_features :: int

record Bias = OpBase +
  features :: int

text \<open>
  \<^verbatim>\<open>Gemm._pre_describe_tensors\<close> and \<^verbatim>\<open>Bias._pre_describe_tensors\<close>. Python's \<^verbatim>\<open>%\<close> and
  \<^verbatim>\<open>//\<close> on integers are \<open>mod\<close> and \<open>div\<close> on \<open>int\<close> for a divisor other than zero, and
  raise \<^verbatim>\<open>ZeroDivisionError\<close> for zero.
\<close>

definition Gemm_pre_describe_tensors :: "Gemm \<Rightarrow> py_error + Gemm" where
  "Gemm_pre_describe_tensors self =
     (case parallellism self of
        Inl e \<Rightarrow> Inl e
      | Inr p \<Rightarrow>
          if p \<notin> set [NORMAL, RGEMM, CGEMM] then Inl AssertionError
          else
            (case (if p \<in> set [RGEMM, CGEMM] then dist_group_size self else Inr 1) of
               Inl e \<Rightarrow> Inl e
             | Inr workers \<Rightarrow>
                 if p = RGEMM then
                   (if workers = 0 then Inl ZeroDivisionError
                    else if in_features self mod workers \<noteq> 0 then
                      Inl (ValueError
                        ''Number of input features must be divisible by the distributed group size'')
                    else Inr (self\<lparr>in_features := in_features self div workers\<rparr>))
                 else if p = CGEMM then
                   (if workers = 0 then Inl ZeroDivisionError
                    else if out_features self mod workers \<noteq> 0 then
                      Inl (ValueError
                        ''Number of output features must be divisible by the distributed group size'')
                    else Inr (self\<lparr>out_features := out_features self div workers\<rparr>))
                 else Inr self))"

definition Bias_pre_describe_tensors :: "Bias \<Rightarrow> py_error + Bias" where
  "Bias_pre_describe_tensors self =
     (case parallellism self of
        Inl e \<Rightarrow> Inl e
      | Inr p \<Rightarrow>
          if p \<notin> set [NORMAL, ROWP, COLP] then Inl AssertionError
          else
            (case (if p = COLP then dist_group_size self else Inr 1) of
               Inl e \<Rightarrow> Inl e
             | Inr workers \<Rightarrow>
                 if workers = 0 then Inl ZeroDivisionError
                 else if features self mod workers \<noteq> 0 then
                   Inl (ValueError
                     ''Number of features must be divisible by the distributed group size'')
                 else Inr (self\<lparr>features := features self div workers\<rparr>)))"

text \<open>
  \<^verbatim>\<open>Op.set_input_shape\<close> stores the shape and calls \<^verbatim>\<open>_pre_describe_tensors\<close>; it
  describes and allocates no tensor.
\<close>

definition Gemm_set_input_shape :: "Gemm \<Rightarrow> int list \<Rightarrow> py_error + Gemm" where
  "Gemm_set_input_shape self input_shape =
     Gemm_pre_describe_tensors (self\<lparr>input_shape_attr := Value input_shape\<rparr>)"

definition Bias_set_input_shape :: "Bias \<Rightarrow> int list \<Rightarrow> py_error + Bias" where
  "Bias_set_input_shape self input_shape =
     Bias_pre_describe_tensors (self\<lparr>input_shape_attr := Value input_shape\<rparr>)"

subsection \<open>The residual block\<close>

text \<open>
  Tensors are mutable buffers: a tensor is the address of its buffer in a store of values.
\<close>

type_synonym 'v store = "nat \<Rightarrow> 'v"

text \<open>
  Modelled from the spec: \<^verbatim>\<open>f.copy\<close> and \<^verbatim>\<open>f.add\<close> of generic_tensor.py, which is not
  among the sources. They are primitives of the numeric backend that work on buffers
  allocated beforehand and write their result into the buffer given last.
\<close>

definition f_copy :: "nat \<Rightarrow> nat \<Rightarrow> 'v store \<Rightarrow> 'v store" where
  "f_copy src out s = s(out := s src)"

definition f_add :: "nat \<Rightarrow> nat \<Rightarrow> nat \<Rightarrow> ('v::plus) store \<Rightarrow> 'v store" where
  "f_add a b out s = s(out := s a + s b)"

text \<open>
  \<^verbatim>\<open>ResidualEnd\<close> reaches the forward residue through \<^verbatim>\<open>self.begin.fwd_residue\<close>; the
  record holds that address directly. The field \<^verbatim>\<open>end\<close> of \<^verbatim>\<open>ResidualBegin\<close> is
  \<open>end_op\<close>.
\<close>

record ResidualEnd =
  begin_fwd_residue :: nat
  bwd_residue :: nat

record ResidualBegin =
  end_op :: "ResidualEnd option"
  fwd_residue :: nat

text \<open>
  The training protocol is a generator with one suspend point. \<open>training self x s\<close> runs
  it to the first \<^verbatim>\<open>yield\<close>: it returns the store, the tensor yielded, and the rest of
  the generator, which takes the gradient sent in and the store at that time and returns
  the store and the tensor of the second \<^verbatim>\<open>yield\<close>.
\<close>

definition ResidualBegin_training ::
  "ResidualBegin \<Rightarrow> nat \<Rightarrow> ('v::plus) store \<Rightarrow>
   py_error + ('v store \<times> nat \<times> (nat \<Rightarrow> 'v store \<Rightarrow> 'v store \<times> nat))" where
  "ResidualBegin_training self x s =
     (case end_op self of
        None \<Rightarrow> Inl AssertionError
      | Some e \<Rightarrow>
          Inr (f_copy x (fwd_residue self) s, x,
               \<lambda>grad s'. (f_add (bwd_residue e) grad (bwd_residue e) s', bwd_residue e)))"

definition ResidualBegin_inference :: "ResidualBegin \<Rightarrow> nat \<Rightarrow> 'v store \<Rightarrow> 'v store \<times> nat" where
  "ResidualBegin_inference self x s = (f_copy x (fwd_residue self) s, x)"

definition ResidualEnd_training ::
  "ResidualEnd \<Rightarrow> nat \<Rightarrow> ('v::plus) store \<Rightarrow>
   'v store \<times> nat \<times> (nat \<Rightarrow> 'v store \<Rightarrow> 'v store \<times> nat)" where
  "ResidualEnd_training self x s =
     (f_add (begin_fwd_residue self) x (begin_fwd_residue self) s, begin_fwd_residue self,
      \<lambda>grad s'. (f_copy grad (bwd_residue self) s', grad))"

definition ResidualEnd_inference :: "ResidualEnd \<Rightarrow> nat \<Rightarrow> ('v::plus) store \<Rightarrow> 'v store \<times> nat" where
  "ResidualEnd_inference self x s =
     (f_add (begin_fwd_residue self) x (begin_fwd_residue self) s, begin_fwd_residue self)"

text \<open>An example store: buffer 1 holds 5, buffer 2 holds 7, all others 0.\<close>

definition demo_store :: "int store" where
  "demo_store = (\<lambda>a. 0)(1 := 5, 2 := 7)"

section \<open>Properties of the partitioner\<close>

lemma elems_simps [simp]:
  "elems [] = []" "elems (x # xs) = ops_of x @ elems xs" "elems (xs @ ys) = elems xs @ elems ys"
  by (simp_all add: elems_def)

lemma balanced_sym: "balanced P Q waiting own \<Longrightarrow> balanced Q P own waiting"
  by (auto simp: balanced_def)

lemma match_ops_balanced:
  "balanced P Q waiting own \<Longrightarrow> match_ops ops waiting own = (w', o') \<Longrightarrow>
     balanced P (Q \<union> set ops) w' o'"
proof (induction ops arbitrary: Q waiting own)
  case Nil
  then show ?case by simp
next
  case (Cons x ops)
  show ?case
  proof (cases "x \<in> waiting")
    case True
    from Cons.prems(1) True have "balanced P (insert x Q) (waiting - {x}) own"
      by (auto simp: balanced_def)
    moreover from Cons.prems(2) True have "match_ops ops (waiting - {x}) own = (w', o')"
      by simp
    ultimately have "balanced P (insert x Q \<union> set ops) w' o'" by (rule Cons.IH)
    then show ?thesis by simp
  next
    case False
    from Cons.prems(1) False have "balanced P (insert x Q) waiting (insert x own)"
      by (auto simp: balanced_def)
    moreover from Cons.prems(2) False have "match_ops ops waiting (insert x own) = (w', o')"
      by simp
    ultimately have "balanced P (insert x Q \<union> set ops) w' o'" by (rule Cons.IH)
    then show ?thesis by simp
  qed
qed

lemma take_bwds_balanced:
  "balanced F (set (elems used)) uf ub \<Longrightarrow>
   take_bwds bs used uf ub = Inr (bs', used', uf', ub') \<Longrightarrow>
     balanced F (set (elems used')) uf' ub' \<and> used' @ bs' = used @ bs \<and> uf' = {}"
proof (induction bs arbitrary: used uf ub)
  case Nil
  then show ?case by (auto split: if_splits)
next
  case (Cons b bs)
  show ?case
  proof (cases "uf = {}")
    case True
    with Cons.prems show ?thesis by auto
  next
    case False
    obtain u1 u2 where m: "match_ops (ops_of b) uf ub = (u1, u2)"
      by (cases "match_ops (ops_of b) uf ub")
    from match_ops_balanced [OF Cons.prems(1) m]
    have "balanced F (set (elems (used @ [b]))) u1 u2" by simp
    moreover from Cons.prems(2) False m
    have "take_bwds bs (used @ [b]) u1 u2 = Inr (bs', used', uf', ub')" by simp
    ultimately show ?thesis using Cons.IH by fastforce
  qed
qed

lemma take_fwds_balanced:
  "balanced (set (elems used)) B uf ub \<Longrightarrow>
   take_fwds fs used uf ub = Inr (fs', used', uf', ub') \<Longrightarrow>
     balanced (set (elems used')) B uf' ub' \<and> used' @ fs' = used @ fs \<and> ub' = {}"
proof (induction fs arbitrary: used uf ub)
  case Nil
  then show ?case by (auto split: if_splits)
next
  case (Cons f fs)
  show ?case
  proof (cases "ub = {}")
    case True
    with Cons.prems show ?thesis by auto
  next
    case False
    obtain u1 u2 where m: "match_ops (ops_of f) ub uf = (u1, u2)"
      by (cases "match_ops (ops_of f) ub uf")
    from match_ops_balanced [OF balanced_sym [OF Cons.prems(1)] m]
    have "balanced (set (elems (used @ [f]))) B u2 u1" by (auto dest: balanced_sym)
    moreover from Cons.prems(2) False m
    have "take_fwds fs (used @ [f]) u2 u1 = Inr (fs', used', uf', ub')" by simp
    ultimately show ?thesis using Cons.IH by fastforce
  qed
qed

lemma match_loop_balanced:
  "balanced (set (elems used_f)) (set (elems used_b)) uf ub \<Longrightarrow>
   match_loop fs bs used_f used_b uf ub = Inr (fs', bs', used_f', used_b') \<Longrightarrow>
     set (elems used_f') = set (elems used_b') \<and>
     used_f' @ fs' = used_f @ fs \<and> used_b' @ bs' = used_b @ bs"
proof (induction fs bs used_f used_b uf ub rule: match_loop.induct)
  case (1 fs bs used_f used_b uf ub)
  from "1.prems"(2) show ?case
  proof (cases rule: match_loop_Inr_cases)
    case stop
    with "1.prems"(1) show ?thesis by (auto simp: balanced_def)
  next
    case (step bs1 usedb1 uf1 ub1 fs1 usedf1 uf2 ub2)
    from take_bwds_balanced [OF "1.prems"(1) step(2)]
    have b1: "balanced (set (elems used_f)) (set (elems usedb1)) uf1 ub1"
      and l1: "usedb1 @ bs1 = used_b @ bs" by blast+
    from take_fwds_balanced [OF b1 step(3)]
    have b2: "balanced (set (elems usedf1)) (set (elems usedb1)) uf2 ub2"
      and l2: "usedf1 @ fs1 = used_f @ fs" by blast+
    from "1.IH" [OF step(1) step(2) refl refl refl step(3) refl refl refl b2 step(4)] l1 l2
    show ?thesis by simp
  qed
qed

lemma split_loop_units:
  "split_loop fs bs acc = Inr us \<Longrightarrow>
     \<exists>new. us = acc @ new \<and> concat (map fwds new) = fs \<and> concat (map bwds new) = bs \<and>
       (\<forall>u \<in> set new. set (elems (fwds u)) = set (elems (bwds u)))"
proof (induction fs bs acc rule: split_loop.induct)
  case (1 fs bs acc)
  from "1.prems" show ?case
  proof (cases rule: split_loop_Inr_cases)
    case stop
    then show ?thesis by simp
  next
    case (step fwd fs1 fs' bs' used_f used_b)
    have "balanced (set (elems [fwd])) (set (elems [])) (set (ops_of fwd)) {}"
      by (simp add: balanced_def)
    from match_loop_balanced [OF this step(2)]
    have eq: "set (elems used_f) = set (elems used_b)"
      and lf: "used_f @ fs' = fwd # fs1" and lb: "used_b @ bs' = bs" by auto
    have ne: "\<not> (fs = [] \<and> bs = [])" using step(1) by simp
    from "1.IH" [OF ne step(1) step(2) refl refl refl step(3)]
    obtain new where new: "us = (acc @ [SelfContainedOp used_f used_b]) @ new"
      "concat (map fwds new) = fs'" "concat (map bwds new) = bs'"
      "\<forall>u \<in> set new. set (elems (fwds u)) = set (elems (bwds u))" by blast
    let ?new = "SelfContainedOp used_f used_b # new"
    have "us = acc @ ?new" using new(1) by simp
    moreover have "concat (map fwds ?new) = fs" using new(2) lf step(1) by simp
    moreover have "concat (map bwds ?new) = bs" using new(3) lb by simp
    moreover have "\<forall>u \<in> set ?new. set (elems (fwds u)) = set (elems (bwds u))"
      using new(4) eq by simp
    ultimately show ?thesis by blast
  qed
qed

lemma distinct_concat_disjoint:
  "distinct (concat xss) \<Longrightarrow> i < j \<Longrightarrow> j < length xss \<Longrightarrow> set (xss ! i) \<inter> set (xss ! j) = {}"
proof (induction xss arbitrary: i j)
  case Nil
  then show ?case by simp
next
  case (Cons xs xss)
  from Cons.prems(2) obtain j' where j: "j = Suc j'" by (cases j) auto
  show ?case
  proof (cases i)
    case 0
    from Cons.prems(1) have "set xs \<inter> set (concat xss) = {}" by simp
    moreover from Cons.prems(3) j have "xss ! j' \<in> set xss" by simp
    then have "set (xss ! j') \<subseteq> set (concat xss)" by auto
    ultimately show ?thesis using 0 j by auto
  next
    case (Suc i')
    with Cons.prems j Cons.IH [of i' j'] show ?thesis by simp
  qed
qed

lemma match_ops_distinct:
  "distinct ops \<Longrightarrow>
     match_ops ops waiting own = (waiting - set ops, own \<union> (set ops - waiting))"
  by (induction ops arbitrary: waiting own) auto

lemma take_bwds_total:
  "ready fs bs uf ub \<Longrightarrow>
     \<exists>bs' used' ub'. take_bwds bs used uf ub = Inr (bs', used', {}, ub') \<and> ready fs bs' {} ub'"
proof (induction bs arbitrary: used uf ub)
  case Nil
  then show ?case by (simp add: ready_def)
next
  case (Cons b bs)
  show ?case
  proof (cases "uf = {}")
    case True
    with Cons.prems show ?thesis by auto
  next
    case False
    from Cons.prems have d: "distinct (ops_of b)" by (simp add: ready_def)
    let ?uf = "uf - set (ops_of b)" and ?ub = "ub \<union> (set (ops_of b) - uf)"
    from Cons.prems have "ready fs bs ?uf ?ub"
      unfolding ready_def by auto
    from Cons.IH [OF this, of "used @ [b]"] False d show ?thesis
      by (simp add: match_ops_distinct)
  qed
qed

lemma take_fwds_total:
  "ready fs bs uf ub \<Longrightarrow>
     \<exists>fs' used' uf'. take_fwds fs used uf ub = Inr (fs', used', uf', {}) \<and> ready fs' bs uf' {}"
proof (induction fs arbitrary: used uf ub)
  case Nil
  then show ?case by (simp add: ready_def)
next
  case (Cons f fs)
  show ?case
  proof (cases "ub = {}")
    case True
    with Cons.prems show ?thesis by auto
  next
    case False
    from Cons.prems have d: "distinct (ops_of f)" by (simp add: ready_def)
    let ?ub = "ub - set (ops_of f)" and ?uf = "uf \<union> (set (ops_of f) - ub)"
    from Cons.prems have "ready fs bs ?uf ?ub"
      unfolding ready_def by auto
    from Cons.IH [OF this, of "used @ [f]"] False d show ?thesis
      by (simp add: match_ops_distinct)
  qed
qed

lemma match_loop_total:
  "ready fs bs uf ub \<Longrightarrow>
     \<exists>fs' bs' used_f' used_b'.
        match_loop fs bs used_f used_b uf ub = Inr (fs', bs', used_f', used_b') \<and>
        ready fs' bs' {} {}"
proof (induction fs bs used_f used_b uf ub rule: match_loop.induct)
  case (1 fs bs used_f used_b uf ub)
  show ?case
  proof (cases "uf = {} \<and> ub = {}")
    case True
    with "1.prems" show ?thesis by (auto simp: match_loop_stop)
  next
    case False
    from take_bwds_total [OF "1.prems", of used_b] obtain bs1 usedb1 ub1 where
      tb: "take_bwds bs used_b uf ub = Inr (bs1, usedb1, {}, ub1)" and r1: "ready fs bs1 {} ub1"
      by blast
    from take_fwds_total [OF r1, of used_f] obtain fs1 usedf1 uf2 where
      tf: "take_fwds fs used_f {} ub1 = Inr (fs1, usedf1, uf2, {})" and r2: "ready fs1 bs1 uf2 {}"
      by blast
    from "1.IH" [OF False tb refl refl refl tf refl refl refl r2]
    show ?thesis by (simp add: match_loop_step [OF False] tb tf)
  qed
qed

lemma split_loop_total:
  "ready fs bs {} {} \<Longrightarrow> \<exists>us. split_loop fs bs acc = Inr us"
proof (induction fs bs acc rule: split_loop.induct)
  case (1 fs bs acc)
  show ?case
  proof (cases "fs = [] \<and> bs = []")
    case True
    then show ?thesis by (subst split_loop.simps) simp
  next
    case False
    from "1.prems" have eq: "set (elems fs) = set (elems bs)"
      unfolding ready_def by blast
    have "fs \<noteq> []"
    proof
      assume "fs = []"
      with False obtain b bs1 where "bs = b # bs1" by (cases bs) auto
      with "1.prems" eq \<open>fs = []\<close> show False by (auto simp: ready_def)
    qed
    then obtain fwd fs1 where fs: "fs = fwd # fs1" by (cases fs) auto
    from "1.prems" eq fs have "ready fs1 bs (set (ops_of fwd)) {}"
      unfolding ready_def by auto
    from match_loop_total [OF this, of "[fwd]" "[]"] obtain fs' bs' used_f used_b where
      m: "match_loop fs1 bs [fwd] [] (set (ops_of fwd)) {} = Inr (fs', bs', used_f, used_b)"
      and r: "ready fs' bs' {} {}" by blast
    from "1.IH" [OF False fs m refl refl refl r] obtain us where
      "split_loop fs' bs' (acc @ [SelfContainedOp used_f used_b]) = Inr us" by blast
    with False fs m show ?thesis by (subst split_loop.simps) simp
  qed
qed

subsection \<open>Units are self-contained\<close>

text \<open>
  Claim C1, as the code has it. Whenever \<open>split_into_self_contained\<close> returns, the forward
  group and the backward group of every returned unit decompose to the same set of
  elementary operations, and concatenating the units' \<open>fwds\<close> lists (respectively \<open>bwds\<close>
  lists) in output order gives back the input forward (respectively backward) list, so
  every input item sits in exactly one unit, at its own place. When no elementary operation
  occurs twice in the decomposition of the forward list, no elementary operation appears in
  two different units.
\<close>

theorem split_into_self_contained_units:
  assumes "split_into_self_contained fs bs = Inr us"
  shows "(\<forall>u \<in> set us. set (elems (fwds u)) = set (elems (bwds u))) \<and>
         concat (map fwds us) = fs \<and> concat (map bwds us) = bs \<and>
         (distinct (elems fs) \<longrightarrow>
            (\<forall>i j. i < j \<and> j < length us \<longrightarrow> unit_ops (us ! i) \<inter> unit_ops (us ! j) = {}))"
proof -
  from split_loop_units [of fs bs "[]" us] assms have
    eq: "\<forall>u \<in> set us. set (elems (fwds u)) = set (elems (bwds u))"
    and cf: "concat (map fwds us) = fs" and cb: "concat (map bwds us) = bs"
    by (auto simp: split_into_self_contained_def)
  have "unit_ops (us ! i) \<inter> unit_ops (us ! j) = {}"
    if d: "distinct (elems fs)" and ij: "i < j" "j < length us" for i j
  proof -
    have "elems fs = concat (map (\<lambda>u. elems (fwds u)) us)"
      unfolding cf [symmetric] elems_def by (induction us) simp_all
    with d have "distinct (concat (map (\<lambda>u. elems (fwds u)) us))" by simp
    from distinct_concat_disjoint [OF this ij(1)] ij
    have "set (elems (fwds (us ! i))) \<inter> set (elems (fwds (us ! j))) = {}" by simp
    moreover from eq ij have "unit_ops (us ! i) = set (elems (fwds (us ! i)))"
      "unit_ops (us ! j) = set (elems (fwds (us ! j)))"
      by (simp_all add: unit_ops_def)
    ultimately show ?thesis by simp
  qed
  with eq cf cb show ?thesis by blast
qed

text \<open>The theorem of claim C1 at a forward and a backward list that fuse differently.\<close>

theorem split_into_self_contained_units_witness:
  "split_into_self_contained [Op (0::nat), FusedOp [1, 2], Op 3] [FusedOp [0, 1], Op 2, Op 3] =
     Inr [SelfContainedOp [Op 0, FusedOp [1, 2]] [FusedOp [0, 1], Op 2],
          SelfContainedOp [Op 3] [Op 3]] \<and>
   set (elems [Op (0::nat), FusedOp [1, 2]]) = set (elems [FusedOp [0, 1], Op 2]) \<and>
   unit_ops (SelfContainedOp [Op (0::nat), FusedOp [1, 2]] [FusedOp [0, 1], Op 2]) \<inter>
     unit_ops (SelfContainedOp [Op 3] [Op 3]) = {}"
proof -
  have h: "split_into_self_contained [Op (0::nat), FusedOp [1, 2], Op 3]
             [FusedOp [0, 1], Op 2, Op 3] =
           Inr [SelfContainedOp [Op 0, FusedOp [1, 2]] [FusedOp [0, 1], Op 2],
                SelfContainedOp [Op 3] [Op 3]]"
    by code_simp
  have d: "distinct (elems [Op (0::nat), FusedOp [1, 2], Op 3])" by simp
  let ?us = "[SelfContainedOp [Op (0::nat), FusedOp [1, 2]] [FusedOp [0, 1], Op 2],
              SelfContainedOp [Op 3] [Op 3]]"
  from split_into_self_contained_units [OF h] d
  have "\<forall>i j. i < j \<and> j < length ?us \<longrightarrow> unit_ops (?us ! i) \<inter> unit_ops (?us ! j) = {}"
    by blast
  from this [rule_format, of 0 1]
  have "unit_ops (?us ! 0) \<inter> unit_ops (?us ! 1) = {}" by simp
  with split_into_self_contained_units [OF h] h show ?thesis by simp
qed

text \<open>
  Claim C1 as stated, for every pair of lists, fails where an operation occurs twice: both
  units returned for \<open>[Op 0, Op 0]\<close> hold the operation \<open>0\<close>.
\<close>

theorem split_duplicates_counterexample:
  "split_into_self_contained [Op (0::nat), Op 0] [Op 0, Op 0] =
     Inr [SelfContainedOp [Op 0] [Op 0], SelfContainedOp [Op 0] [Op 0]] \<and>
   unit_ops ([SelfContainedOp [Op (0::nat)] [Op 0], SelfContainedOp [Op 0] [Op 0]] ! 0) \<inter>
   unit_ops ([SelfContainedOp [Op (0::nat)] [Op 0], SelfContainedOp [Op 0] [Op 0]] ! 1) \<noteq> {}"
proof
  show "split_into_self_contained [Op (0::nat), Op 0] [Op 0, Op 0] =
     Inr [SelfContainedOp [Op 0] [Op 0], SelfContainedOp [Op 0] [Op 0]]"
    by code_simp
  show "unit_ops ([SelfContainedOp [Op (0::nat)] [Op 0], SelfContainedOp [Op 0] [Op 0]] ! 0) \<inter>
   unit_ops ([SelfContainedOp [Op (0::nat)] [Op 0], SelfContainedOp [Op 0] [Op 0]] ! 1) \<noteq> {}"
    by (simp add: unit_ops_def)
qed

subsection \<open>Totality\<close>

text \<open>
  Claim C10, as the code has it. When every elementary operation occurs exactly once in the
  decomposition of the forward list and exactly once in that of the backward list, and no
  backward item is an empty fused group, \<open>split_into_self_contained\<close> returns a list of
  units: its loops terminate (the functions are total) and no \<^verbatim>\<open>pop(0)\<close> meets an empty
  queue. Without the precondition a pop can fail: a forward operation with no backward
  counterpart raises \<open>IndexError\<close>.
\<close>

theorem split_into_self_contained_total:
  assumes "distinct (elems fs)" and "distinct (elems bs)"
    and "set (elems fs) = set (elems bs)" and "\<forall>b \<in> set bs. ops_of b \<noteq> []"
  shows "(\<exists>us. split_into_self_contained fs bs = Inr us) \<and>
         split_into_self_contained [Op a] [] = Inl IndexError"
proof
  from assms have "ready fs bs {} {}" by (auto simp: ready_def)
  then show "\<exists>us. split_into_self_contained fs bs = Inr us"
    unfolding split_into_self_contained_def by (rule split_loop_total)
next
  show "split_into_self_contained [Op a] [] = Inl IndexError"
    unfolding split_into_self_contained_def
    by (subst split_loop.simps) (simp add: match_loop_step)
qed

text \<open>The theorem of claim C10 at two lists that fuse the same four operations differently.\<close>

theorem split_into_self_contained_total_witness:
  "(\<exists>us. split_into_self_contained [Op (0::nat), FusedOp [1, 2], Op 3]
            [FusedOp [0, 1], Op 2, Op 3] = Inr us) \<and>
   split_into_self_contained [Op (7::nat)] [] = Inl IndexError"
  by (rule split_into_self_contained_total) simp_all

text \<open>
  Claim C10 as stated asks only for equal sets of elementary operations. That is not enough:
  the lists below decompose to the same set, and the second outer iteration pops the
  exhausted forward queue.
\<close>

theorem split_same_set_counterexample:
  "set (elems [Op (0::nat)]) = set (elems [Op 0, Op 0]) \<and>
   split_into_self_contained [Op (0::nat)] [Op 0, Op 0] = Inl IndexError"
proof
  show "set (elems [Op (0::nat)]) = set (elems [Op 0, Op 0])" by simp
  show "split_into_self_contained [Op (0::nat)] [Op 0, Op 0] = Inl IndexError" by code_simp
qed

section \<open>Properties of operation names and contexts\<close>

subsection \<open>Names given by name_ops are prefix-free\<close>











lemma name_ops_from_other:
  "a \<notin> set ops \<Longrightarrow> name_ops_from cls i ops attrs a = attrs a"
  by (induction ops arbitrary: i attrs) auto

lemma name_ops_from_other_attr:
  "k \<noteq> ''name'' \<Longrightarrow> map_of (name_ops_from cls i ops attrs a) k = map_of (attrs a) k"
proof (induction ops arbitrary: i attrs)
  case Nil
  then show ?case by simp
next
  case (Cons x ops)
  have "map_of (name_ops_from cls (Suc i) ops
          (attrs(x := setattr (attrs x) ''name'' (StrValue (op_name_of i (cls x))))) a) k =
        map_of ((attrs(x := setattr (attrs x) ''name'' (StrValue (op_name_of i (cls x))))) a) k"
    using Cons.prems by (rule Cons.IH)
  with Cons.prems show ?case by (simp add: setattr_def update_conv')
qed

lemma name_ops_from_nth:
  "distinct ops \<Longrightarrow> n < length ops \<Longrightarrow>
     map_of (name_ops_from cls i ops attrs (ops ! n)) ''name'' =
       Some (StrValue (op_name_of (i + n) (cls (ops ! n))))"
proof (induction ops arbitrary: i n attrs)
  case Nil
  then show ?case by simp
next
  case (Cons x ops)
  show ?case
  proof (cases n)
    case 0
    with Cons.prems show ?thesis
      by (simp add: name_ops_from_other setattr_def update_conv')
  next
    case (Suc n')
    with Cons.prems have "distinct ops" "n' < length ops" by simp_all
    from Cons.IH [OF this, where i = "Suc i"] Suc show ?thesis by simp
  qed
qed


subsection \<open>Merging and filtering contexts\<close>

lemma dict_update_Nil [simp]: "dict_update d [] = d"
  by (simp add: dict_update_def)

lemma dict_update_Cons: "dict_update d ((k, v) # e) = dict_update (AList.update k v d) e"
  by (simp add: dict_update_def)

















subsection \<open>The context round trip\<close>






lemma demo_names_values:
  "demo_names 0 = ''0(Gemm)''" "demo_names 1 = ''1(Gemm)''"
  "demo_names 2 = ''2(Gemm)''" "demo_names 3 = ''3(Gemm)''"
  by (simp_all add: demo_names_def name_ops_def setattr_def op_name_of_def str_nat.simps
      digit_char_def)


text \<open>
  Without the condition on the keys of fused items the contexts collide: the fused item
  \<open>[1, 2]\<close> of \<open>colliding_forward\<close> saves the key \<^verbatim>\<open>0(Gemm)x\<close>, which is the key under which
  the unit context holds the \<^verbatim>\<open>x\<close> of operation \<open>0\<close>. Operation \<open>0\<close> saved the value 5 and is
  handed 99.
\<close>

lemma fused_key_collision:
  "saved_ctxs colliding_forward [Op 0, FusedOp [1, 2]] 5 =
     [(Op 0, [(''x'', 5)]), (FusedOp [1, 2], [(''0(Gemm)x'', 99)])] \<and>
   SelfContainedOp_backward demo_names report_backward
     (SelfContainedOp [Op 0, FusedOp [1, 2]] [Op 0, FusedOp [1, 2]])
     (snd (SelfContainedOp_forward demo_names colliding_forward
        (SelfContainedOp [Op 0, FusedOp [1, 2]] [Op 0, FusedOp [1, 2]]) 5)) 0 =
   (0, [99, 99])"
  by (simp add: SelfContainedOp_backward_def SelfContainedOp_forward_def colliding_forward_def
      report_backward_def prefix_ctx_def strip_ctx_def dict_of_def dict_update_def
      demo_names_values)



subsection \<open>Order of the backward pass\<close>

lemma backward_loop_acc:
  "backward_loop op_backward items dy acc =
     (case backward_loop op_backward items dy [] of (d, g) \<Rightarrow> (d, acc @ g))"
proof (induction items arbitrary: dy acc)
  case Nil
  then show ?case by simp
next
  case (Cons p items)
  obtain op ctx where p: "p = (op, ctx)" by (cases p)
  obtain dy' grads where b: "op_backward op ctx dy = (dy', grads)"
    by (cases "op_backward op ctx dy")
  have "backward_loop op_backward items dy' (acc @ grads) =
        (case backward_loop op_backward items dy' [] of (d, g) \<Rightarrow> (d, (acc @ grads) @ g))"
    by (rule Cons.IH)
  moreover have "backward_loop op_backward items dy' ([] @ grads) =
        (case backward_loop op_backward items dy' [] of (d, g) \<Rightarrow> (d, ([] @ grads) @ g))"
    by (rule Cons.IH)
  ultimately show ?case using p b by (simp split: prod.splits)
qed

text \<open>
  Claim C8. \<open>SelfContainedOp.backward\<close> runs the backward item collected last first, on the
  incoming gradient, and then the items collected before it, on the gradient the last item
  returned; the gradient that comes out of the first item is the unit's. The parameter
  gradients are collected in the same order. Units are emitted in forward traversal order:
  the units' forward lists, concatenated in output order, are the forward input list.
\<close>

theorem backward_runs_in_reverse:
  "SelfContainedOp_backward names op_backward (SelfContainedOp fs []) ctx dy = (dy, []) \<and>
   SelfContainedOp_backward names op_backward (SelfContainedOp fs (bs @ [b])) ctx dy =
     (case op_backward b (backward_ctx names b ctx) dy of
        (dy1, grads1) \<Rightarrow>
          (case SelfContainedOp_backward names op_backward (SelfContainedOp fs bs) ctx dy1 of
             (dy2, grads2) \<Rightarrow> (dy2, grads1 @ grads2))) \<and>
   (split_into_self_contained fwds_in bwds_in = Inr us \<longrightarrow> concat (map fwds us) = fwds_in)"
proof (intro conjI impI)
  show "SelfContainedOp_backward names op_backward (SelfContainedOp fs []) ctx dy = (dy, [])"
    by (simp add: SelfContainedOp_backward_def)
next
  obtain dy1 grads1 where b: "op_backward b (backward_ctx names b ctx) dy = (dy1, grads1)"
    by (cases "op_backward b (backward_ctx names b ctx) dy")
  let ?rest = "rev (zip bs (map (\<lambda>op. backward_ctx names op ctx) bs))"
  have "backward_loop op_backward ?rest dy1 ([] @ grads1) =
        (case backward_loop op_backward ?rest dy1 [] of (d, g) \<Rightarrow> (d, ([] @ grads1) @ g))"
    by (rule backward_loop_acc)
  with b show "SelfContainedOp_backward names op_backward (SelfContainedOp fs (bs @ [b])) ctx dy =
     (case op_backward b (backward_ctx names b ctx) dy of
        (dy1, grads1) \<Rightarrow>
          (case SelfContainedOp_backward names op_backward (SelfContainedOp fs bs) ctx dy1 of
             (dy2, grads2) \<Rightarrow> (dy2, grads1 @ grads2)))"
    by (simp add: SelfContainedOp_backward_def)
next
  assume "split_into_self_contained fwds_in bwds_in = Inr us"
  with split_loop_units [of fwds_in bwds_in "[]" us]
  show "concat (map fwds us) = fwds_in"
    by (auto simp: split_into_self_contained_def)
qed

text \<open>
  The theorem of claim C8 on three backward items: the gradient passes item \<open>4\<close>, then the
  fused item, then item \<open>1\<close>.
\<close>

theorem backward_runs_in_reverse_witness:
  "split_into_self_contained [Op (0::nat), FusedOp [1, 2], Op 3] [FusedOp [0, 1], Op 2, Op 3] =
     Inr [SelfContainedOp [Op 0, FusedOp [1, 2]] [FusedOp [0, 1], Op 2],
          SelfContainedOp [Op 3] [Op 3]] \<and>
   concat (map fwds [SelfContainedOp [Op (0::nat), FusedOp [1, 2]] [FusedOp [0, 1], Op 2],
                     SelfContainedOp [Op 3] [Op 3]]) = [Op 0, FusedOp [1, 2], Op 3] \<and>
   SelfContainedOp_backward (\<lambda>a. '''') demo_backward
     (SelfContainedOp [] [Op 1, FusedOp [2, 3], Op 4]) [] 0 = (491, [4, 2, 3, 1])"
proof -
  have h: "split_into_self_contained [Op (0::nat), FusedOp [1, 2], Op 3]
             [FusedOp [0, 1], Op 2, Op 3] =
           Inr [SelfContainedOp [Op 0, FusedOp [1, 2]] [FusedOp [0, 1], Op 2],
                SelfContainedOp [Op 3] [Op 3]]"
    by code_simp
  note t = backward_runs_in_reverse [where names = "\<lambda>a. ''''" and op_backward = demo_backward
      and ctx = "[]" and fs = "[]"]
  have b0: "SelfContainedOp_backward (\<lambda>a. '''') demo_backward (SelfContainedOp [] []) [] 491 = (491, [])"
    using t [THEN conjunct1] by simp
  have b1: "SelfContainedOp_backward (\<lambda>a. '''') demo_backward (SelfContainedOp [] [Op 1]) [] 49 =
            (491, [1])"
    using t [where bs = "[]" and b = "Op 1" and dy = 49, THEN conjunct2, THEN conjunct1] b0
    by (simp add: demo_backward_def)
  have b2: "SelfContainedOp_backward (\<lambda>a. '''') demo_backward
              (SelfContainedOp [] [Op 1, FusedOp [2, 3]]) [] 4 = (491, [2, 3, 1])"
    using t [where bs = "[Op 1]" and b = "FusedOp [2, 3]" and dy = 4, THEN conjunct2, THEN conjunct1] b1
    by (simp add: demo_backward_def)
  have b3: "SelfContainedOp_backward (\<lambda>a. '''') demo_backward
              (SelfContainedOp [] [Op 1, FusedOp [2, 3], Op 4]) [] 0 = (491, [4, 2, 3, 1])"
    using t [where bs = "[Op 1, FusedOp [2, 3]]" and b = "Op 4" and dy = 0, THEN conjunct2, THEN conjunct1] b2
    by (simp add: demo_backward_def)
  from t [where fwds_in = "[Op (0::nat), FusedOp [1, 2], Op 3]", THEN conjunct2, THEN conjunct2] h b3
  show ?thesis by simp
qed

section \<open>Properties of squishing\<close>

lemma squish_table_cases:
  "map_of SQUISH_TABLE k = Some d \<Longrightarrow>
     (k = int8 \<and> d = float16) \<or> (k = bfloat16 \<and> d = float32) \<or> (k = float32 \<and> d = float64)"
  by (auto simp: SQUISH_TABLE_def split: if_splits)

lemma unsquish_table_inverse:
  "map_of SQUISH_TABLE k = Some d \<Longrightarrow> map_of UNSQUISH_TABLE d = Some k"
  by (auto simp: SQUISH_TABLE_def UNSQUISH_TABLE_def split: if_splits)

lemma squish_doubles:
  "map_of SQUISH_TABLE k = Some d \<Longrightarrow> element_size d = 2 * element_size k \<and> k \<noteq> d"
  by (auto dest: squish_table_cases)

lemma halve_double_all:
  "\<forall>s \<in> set xs. even s \<Longrightarrow> map (\<lambda>s. s * 2) (map (\<lambda>s. s div 2) xs) = (xs :: nat list)"
  by (induction xs) auto

lemma no_odd_stride:
  assumes "\<forall>s \<in> set (butlast (ss :: nat list)). even s"
  shows "find (\<lambda>i. ss ! i mod 2 \<noteq> 0) [0 ..< length ss - 1] = (None :: nat option)"
proof -
  have "ss ! i mod 2 = 0" if "i < length ss - 1" for i
  proof -
    from that have "butlast ss ! i = ss ! i" "i < length (butlast ss)"
      by (simp_all add: nth_butlast)
    then have "ss ! i \<in> set (butlast ss)" by (metis nth_mem)
    with assms show ?thesis by auto
  qed
  then show ?thesis by (simp add: find_None_iff)
qed

text \<open>
  Claim C2, as the code has it. Take a tensor whose type is in the squish table and that
  PyTorch lets be viewed under an element twice as wide: it has a dimension, unit stride
  in the last dimension, and its last size, its storage offset and its other strides are
  even. Then \<open>squish\<close> succeeds, \<open>unsquish\<close> of its result is the original tensor (the same
  type, sizes, strides, offset and bytes), the squished type is the one the table gives,
  the element count times the element size is unchanged, and the bytes are unchanged.
\<close>

theorem squish_round_trip:
  assumes "dtype t \<in> fst ` set SQUISH_TABLE"
    and "length (strides t) = length (shape t)" and "shape t \<noteq> []"
    and "last (strides t) = 1" and "even (last (shape t))" and "even (storage_offset t)"
    and "\<forall>s \<in> set (butlast (strides t)). even s"
  shows "\<exists>t'. squish t = Inr t' \<and> unsquish t' = Inr t \<and>
           map_of SQUISH_TABLE (dtype t) = Some (dtype t') \<and>
           numel t' * element_size (dtype t') = numel t * element_size (dtype t) \<and>
           storage t' = storage t"
proof -
  from assms(1) obtain d where d: "map_of SQUISH_TABLE (dtype t) = Some d"
    by (auto simp: SQUISH_TABLE_def)
  from squish_doubles [OF d] have sz: "element_size d = 2 * element_size (dtype t)"
    and ne: "dtype t \<noteq> d" by simp_all
  have pos: "0 < element_size (dtype t)" by (cases "dtype t") simp_all
  from assms(2,3) have ss: "strides t \<noteq> []" by auto
  let ?t' = "t\<lparr>dtype := d,
               shape := butlast (shape t) @ [last (shape t) div 2],
               strides := map (\<lambda>s. s div 2) (butlast (strides t)) @ [1],
               storage_offset := storage_offset t div 2\<rparr>"
  from d sz ne pos assms(3-6) no_odd_stride [OF assms(7)] have s: "squish t = Inr ?t'"
    by (simp add: squish_def view_def Let_def)
  have sh: "butlast (shape t) @ [last (shape t) div 2 * 2] = shape t"
    using assms(3,5) by simp
  have st: "map (\<lambda>s. s * 2) (map (\<lambda>s. s div 2) (butlast (strides t))) @ [1] = strides t"
    using halve_double_all [OF assms(7)] ss assms(4) by (metis append_butlast_last_id)
  have off: "2 * (storage_offset t div 2) = storage_offset t"
    using assms(6) by simp
  from unsquish_table_inverse [OF d] sz ne pos sh st off have u: "unsquish ?t' = Inr t"
    by (simp add: unsquish_def view_def Let_def)
  have n: "numel ?t' * 2 = numel t"
  proof -
    from assms(5) obtain h where h: "last (shape t) = 2 * h" by (auto elim: evenE)
    with assms(3) have "shape t = butlast (shape t) @ [2 * h]"
      by (metis append_butlast_last_id)
    then have "prod_list (shape t) = prod_list (butlast (shape t)) * (2 * h)"
      by (metis prod_list.append prod_list.Cons prod_list.Nil mult.right_neutral)
    with h show ?thesis by (simp add: numel_def)
  qed
  from s u d sz n show ?thesis
    by (intro exI [of _ ?t']) (simp add: mult.assoc [symmetric] mult.commute)
qed

text \<open>The theorem of claim C2 on a contiguous 2 x 4 tensor of 8-bit integers.\<close>

theorem squish_round_trip_witness:
  "squish \<lparr>dtype = int8, shape = [2, 4], strides = [4, 1], storage_offset = 0,
           storage = [1, 2, 3, 4, 5, 6, 7, 8]\<rparr> =
     Inr \<lparr>dtype = float16, shape = [2, 2], strides = [2, 1], storage_offset = 0,
          storage = [1, 2, 3, 4, 5, 6, 7, 8]\<rparr> \<and>
   unsquish \<lparr>dtype = float16, shape = [2, 2], strides = [2, 1], storage_offset = 0,
             storage = [1, 2, 3, 4, 5, 6, 7, 8]\<rparr> =
     Inr \<lparr>dtype = int8, shape = [2, 4], strides = [4, 1], storage_offset = 0,
          storage = [1, 2, 3, 4, 5, 6, 7, 8]\<rparr> \<and>
   numel \<lparr>dtype = float16, shape = [2, 2], strides = [2, 1], storage_offset = 0,
          storage = [1, 2, 3, 4, 5, 6, 7, 8]\<rparr> * element_size float16 =
   numel \<lparr>dtype = int8, shape = [2, 4], strides = [4, 1], storage_offset = 0,
          storage = [1, 2, 3, 4, 5, 6, 7, 8]\<rparr> * element_size int8"
proof -
  let ?t = "\<lparr>dtype = int8, shape = [2, 4], strides = [4, 1], storage_offset = 0,
             storage = [1, 2, 3, 4, 5, 6, 7, 8]\<rparr>"
  let ?s = "\<lparr>dtype = float16, shape = [2, 2], strides = [2, 1], storage_offset = 0,
             storage = [1, 2, 3, 4, 5, 6, 7, 8]\<rparr>"
  have s: "squish ?t = Inr ?s"
    by (simp add: squish_def view_def SQUISH_TABLE_def)
  have "dtype ?t \<in> fst ` set SQUISH_TABLE" "length (strides ?t) = length (shape ?t)"
    "shape ?t \<noteq> []" "last (strides ?t) = 1" "even (last (shape ?t))"
    "even (storage_offset ?t)" "\<forall>s \<in> set (butlast (strides ?t)). even s"
    by (simp_all add: SQUISH_TABLE_def)
  from squish_round_trip [OF this] obtain t' where
    "squish ?t = Inr t'" "unsquish t' = Inr ?t"
    "numel t' * element_size (dtype t') = numel ?t * element_size (dtype ?t)"
    by blast
  moreover from this(1) s have "t' = ?s" by simp
  ultimately have "unsquish ?s = Inr ?t"
    "numel ?s * element_size (dtype ?s) = numel ?t * element_size (dtype ?t)"
    by blast+
  with s show ?thesis by simp
qed

text \<open>
  Claim C2 as stated, for every tensor whose type is in the table, fails on a tensor with an
  odd last dimension: three bytes are no whole number of 16-bit elements, and the view
  that \<open>squish\<close> asks for raises.
\<close>

theorem squish_odd_counterexample:
  "dtype \<lparr>dtype = int8, shape = [3], strides = [1], storage_offset = 0,
          storage = [1, 2, 3]\<rparr> \<in> fst ` set SQUISH_TABLE \<and>
   squish \<lparr>dtype = int8, shape = [3], strides = [1], storage_offset = 0,
           storage = [1, 2, 3]\<rparr> =
     Inl (RuntimeError
       ''self.size(-1) must be divisible by 2 to view Char as Half (different element sizes), but got 3'')"
  by (simp add: squish_def view_def SQUISH_TABLE_def different_sizes_def str_nat.simps
      digit_char_def)

section \<open>Properties of the backward of a unit\<close>

text \<open>
  Claim C6. When the backward of a unit has obtained its incoming gradient and the unit has
  produced its gradients: if the unit has no upcoming backward and the data gradient is
  FP8, the call ends in \<open>AssertionError\<close> and leaves the store as it was; if any parameter
  gradient is FP8, in any unit, the call ends in \<open>AssertionError\<close>, after the data gradient
  has been handed to the upcoming backward if there is one; so a call that returns has
  produced no FP8 parameter gradient and, with no upcoming backward, no FP8 data gradient.
  The unit with no upcoming backward is unit \<open>0\<close> of the pipeline, whose backward runs last.
\<close>

theorem backward_asserts_no_fp8:
  assumes "real_gradient torch_to_te_dtype contiguous ctx comms grad_output = Inr nvte_grad"
    and "op_backward (nvte_op ctx) (nvte_ctx ctx) nvte_grad = (data_grad, param_grads)"
  shows "(nvte_upcoming_backward_comm ctx = None \<and> is_fp8 data_grad \<longrightarrow>
            backward torch_to_te_dtype contiguous op_backward ctx comms grad_output =
              (comms, Inl AssertionError)) \<and>
         ((\<exists>g \<in> set param_grads. is_fp8 g) \<longrightarrow>
            backward torch_to_te_dtype contiguous op_backward ctx comms grad_output =
              (case nvte_upcoming_backward_comm ctx of
                 None \<Rightarrow> comms
               | Some upcoming \<Rightarrow> comms(upcoming := Some data_grad),
               Inl AssertionError)) \<and>
         (\<forall>r. snd (backward torch_to_te_dtype contiguous op_backward ctx comms grad_output) =
                Inr r \<longrightarrow>
            (nvte_upcoming_backward_comm ctx = None \<longrightarrow> \<not> is_fp8 data_grad) \<and>
            (\<forall>g \<in> set param_grads. \<not> is_fp8 g)) \<and>
         (upcoming_backward i = None \<longleftrightarrow> i = 0)"
  using assms
  by (auto simp: backward_def store_gradient_def upcoming_backward_def list_all_iff
           split: option.splits sum.splits if_splits)

text \<open>
  The theorem of claim C6 on a kernel that returns FP8 gradients: the unit without upcoming
  backward fails on its data gradient, a unit with one fails on its parameter gradient.
\<close>

theorem backward_asserts_no_fp8_witness:
  "snd (backward (\<lambda>d. BFloat16) (\<lambda>t. t) fp8_backward
     \<lparr>nvte_ctx = (), nvte_op = (), nvte_preceding_backward_comm = 0,
      nvte_upcoming_backward_comm = None, nvte_unsquish_incoming_dgrad = False,
      nvte_squish_outgoing_dgrad = False\<rparr>
     (\<lambda>a. None)
     \<lparr>dtype = bfloat16, shape = [2], strides = [1], storage_offset = 0,
      storage = [1, 2, 3, 4]\<rparr>) = Inl AssertionError \<and>
   snd (backward (\<lambda>d. BFloat16) (\<lambda>t. t) fp8_backward
     \<lparr>nvte_ctx = (), nvte_op = (), nvte_preceding_backward_comm = 1,
      nvte_upcoming_backward_comm = Some 0, nvte_unsquish_incoming_dgrad = False,
      nvte_squish_outgoing_dgrad = False\<rparr>
     (\<lambda>a. None)
     \<lparr>dtype = bfloat16, shape = [2], strides = [1], storage_offset = 0,
      storage = [1, 2, 3, 4]\<rparr>) = Inl AssertionError"
proof -
  let ?g = "\<lparr>dtype = bfloat16, shape = [2], strides = [1], storage_offset = 0,
             storage = [1, 2, 3, 4]\<rparr>"
  let ?n = "make_nvte_tensor (\<lambda>d. BFloat16) ?g"
  let ?ctx0 = "\<lparr>nvte_ctx = (), nvte_op = (), nvte_preceding_backward_comm = 0,
      nvte_upcoming_backward_comm = None, nvte_unsquish_incoming_dgrad = False,
      nvte_squish_outgoing_dgrad = False\<rparr>"
  let ?ctx1 = "\<lparr>nvte_ctx = (), nvte_op = (), nvte_preceding_backward_comm = 1,
      nvte_upcoming_backward_comm = Some 0, nvte_unsquish_incoming_dgrad = False,
      nvte_squish_outgoing_dgrad = False\<rparr>"
  have r0: "real_gradient (\<lambda>d. BFloat16) (\<lambda>t. t) ?ctx0 (\<lambda>a. None) ?g = Inr ?n"
    and r1: "real_gradient (\<lambda>d. BFloat16) (\<lambda>t. t) ?ctx1 (\<lambda>a. None) ?g = Inr ?n"
    by (simp_all add: real_gradient_def)
  have b0: "fp8_backward (nvte_op ?ctx0) (nvte_ctx ?ctx0) ?n =
            (?n\<lparr>te_dtype := Float8E5M2\<rparr>, [?n\<lparr>te_dtype := Float8E4M3\<rparr>])"
    and b1: "fp8_backward (nvte_op ?ctx1) (nvte_ctx ?ctx1) ?n =
            (?n\<lparr>te_dtype := Float8E5M2\<rparr>, [?n\<lparr>te_dtype := Float8E4M3\<rparr>])"
    by (simp_all add: fp8_backward_def)
  from backward_asserts_no_fp8 [where op_backward = fp8_backward, OF r0 b0, THEN conjunct1]
  have "snd (backward (\<lambda>d. BFloat16) (\<lambda>t. t) fp8_backward ?ctx0 (\<lambda>a. None) ?g) =
        Inl AssertionError"
    by (simp add: is_fp8_def is_fp8_dtype_def)
  moreover
  from backward_asserts_no_fp8 [where op_backward = fp8_backward, OF r1 b1, THEN conjunct2,
      THEN conjunct1]
  have "snd (backward (\<lambda>d. BFloat16) (\<lambda>t. t) fp8_backward ?ctx1 (\<lambda>a. None) ?g) =
        Inl AssertionError"
    by (simp add: is_fp8_def is_fp8_dtype_def)
  ultimately show ?thesis by simp
qed

section \<open>Properties of pipeline construction\<close>

lemma downgrade_idem: "downgrade (downgrade v) = downgrade v"
  by (cases v) (auto simp: downgrade_def is_fp8_dtype_def)

lemma downgrade_no_fp8: "downgrade v = DTypeValue d \<Longrightarrow> \<not> is_fp8_dtype d"
  by (cases v) (auto simp: downgrade_def is_fp8_dtype_def split: if_splits)

lemma map_of_force_attr:
  "map_of (force_use_bf16_attr n op) k =
     (if k = n then map_option downgrade (map_of op k) else map_of op k)"
  by (auto simp: force_use_bf16_attr_def downgrade_def setattr_def update_conv'
           split: option.splits attr_value.splits)

lemma map_of_fold_force:
  "map_of (fold force_use_bf16_attr ns op) k =
     (if k \<in> set ns then map_option downgrade (map_of op k) else map_of op k)"
proof (induction ns arbitrary: op)
  case Nil
  then show ?case by simp
next
  case (Cons n ns)
  have "downgrade \<circ> downgrade = downgrade" by (auto simp: downgrade_idem)
  then show ?case
    by (auto simp: Cons.IH map_of_force_attr option.map_comp)
qed

lemma force_use_bf16_op_no_fp8:
  assumes "suffix ''_dtype'' n" and "map_of (force_use_bf16_op op) n = Some (DTypeValue d)"
  shows "\<not> is_fp8_dtype d"
proof -
  from assms(2) have some: "map_of op n \<noteq> None"
    by (auto simp: force_use_bf16_op_def map_of_fold_force split: if_splits)
  then have "n \<in> set (map fst op)" by (simp add: map_of_eq_None_iff)
  with assms(1) have "n \<in> set (filter (suffix ''_dtype'') (map fst op))" by simp
  with assms(2) have "map_option downgrade (map_of op n) = Some (DTypeValue d)"
    by (simp add: force_use_bf16_op_def map_of_fold_force)
  then show ?thesis by (auto dest: downgrade_no_fp8)
qed

lemma force_use_bf16_op_other:
  "\<not> suffix ''_dtype'' n \<Longrightarrow> map_of (force_use_bf16_op op) n = map_of op n"
  by (simp add: force_use_bf16_op_def map_of_fold_force)

lemma force_use_bf16_op_idem_no_fp8:
  assumes "\<forall>n d. suffix ''_dtype'' n \<and> map_of op n = Some (DTypeValue d) \<longrightarrow> \<not> is_fp8_dtype d"
  shows "\<forall>n d. suffix ''_dtype'' n \<and> map_of (force_use_bf16_op op) n = Some (DTypeValue d) \<longrightarrow>
           \<not> is_fp8_dtype d"
  using force_use_bf16_op_no_fp8 by blast

lemma force_use_bf16_untouched:
  "a \<notin> set ops \<Longrightarrow> force_use_bf16 ops attrs a = attrs a"
  by (induction ops arbitrary: attrs) auto

lemma force_use_bf16_no_fp8:
  assumes "a \<in> set ops" and "suffix ''_dtype'' n"
    and "map_of (force_use_bf16 ops attrs a) n = Some (DTypeValue d)"
  shows "\<not> is_fp8_dtype d"
  using assms
proof (induction ops arbitrary: attrs)
  case Nil
  then show ?case by simp
next
  case (Cons op ops)
  show ?case
  proof (cases "a \<in> set ops")
    case True
    from Cons.prems(3)
    have "map_of (force_use_bf16 ops (attrs(op := force_use_bf16_op (attrs op))) a) n =
          Some (DTypeValue d)" by simp
    with True Cons.prems(2) show ?thesis using Cons.IH by blast
  next
    case False
    with Cons.prems(1) have "a = op" by simp
    with False Cons.prems(3) have "map_of (force_use_bf16_op (attrs op)) n = Some (DTypeValue d)"
      by (simp add: force_use_bf16_untouched)
    with Cons.prems(2) show ?thesis by (rule force_use_bf16_op_no_fp8)
  qed
qed

lemma force_use_bf16_other:
  "\<not> suffix ''_dtype'' n \<Longrightarrow> map_of (force_use_bf16 ops attrs a) n = map_of (attrs a) n"
proof (induction ops arbitrary: attrs)
  case Nil
  then show ?case by simp
next
  case (Cons op ops)
  have "map_of (force_use_bf16 ops (attrs(op := force_use_bf16_op (attrs op))) a) n =
        map_of ((attrs(op := force_use_bf16_op (attrs op))) a) n"
    using Cons.prems by (rule Cons.IH)
  with Cons.prems show ?case by (simp add: force_use_bf16_op_other)
qed

lemma name_not_dtype: "\<not> suffix ''_dtype'' ''name''"
  by (simp add: suffix_to_prefix)

text \<open>
  Claim C3, as the code has it. When \<open>fp8_enabled\<close> is false and the construction returns a
  pipeline, the operation objects are those that \<open>force_use_bf16\<close> leaves of the named ones;
  every product of the construction is computed from these objects: the inference list,
  the forward and backward lists that are split into the units, and with them the forward
  and backward tuples (the downgrade comes before any fusion). No attribute of an operation
  of the list whose name ends in \<^verbatim>\<open>_dtype\<close> holds an 8-bit floating type. Every attribute
  with another name is what it was, except \<^verbatim>\<open>name\<close>, which holds the name that \<open>name_ops\<close>
  has given: for the operation at index \<open>i\<close> of a list without repetition, the index and
  the class name.
\<close>

theorem construction_downgrades_dtype_attributes:
  assumes "\<not> fp8_enabled env"
    and "ComputePipeline_init cls get_fused_op_list ops attrs env = Inr p"
  shows "op_attrs p = force_use_bf16 ops (name_ops cls ops attrs) \<and>
         inf p = get_fused_op_list (op_attrs p) ops ''inference'' \<and>
         split_into_self_contained
           (get_fused_op_list (op_attrs p) ops ''forward'')
           (get_fused_op_list (op_attrs p) ops ''backward'') = Inr (functions p) \<and>
         pipeline_forward p = concat (map fwds (functions p)) \<and>
         pipeline_backward p = concat (map bwds (functions p)) \<and>
         (\<forall>a \<in> set ops. \<forall>n d. suffix ''_dtype'' n \<and> map_of (op_attrs p a) n = Some (DTypeValue d) \<longrightarrow>
            \<not> is_fp8_dtype d) \<and>
         (\<forall>a n. \<not> suffix ''_dtype'' n \<and> n \<noteq> ''name'' \<longrightarrow>
            map_of (op_attrs p a) n = map_of (attrs a) n) \<and>
         (\<forall>a. map_of (op_attrs p a) ''name'' = map_of (name_ops cls ops attrs a) ''name'') \<and>
         (distinct ops \<longrightarrow>
            (\<forall>i < length ops. map_of (op_attrs p (ops ! i)) ''name'' =
               Some (StrValue (op_name_of i (cls (ops ! i))))))"
proof -
  let ?named = "name_ops cls ops attrs"
  let ?final = "force_use_bf16 ops ?named"
  from assms have split:
    "split_into_self_contained (get_fused_op_list ?final ops ''forward'')
       (get_fused_op_list ?final ops ''backward'') = Inr (functions p)"
    by (auto simp: ComputePipeline_init_def Let_def split: if_splits sum.splits)
  from assms have p: "op_attrs p = ?final"
    "inf p = get_fused_op_list ?final ops ''inference''"
    "pipeline_forward p = concat (map fwds (functions p))"
    "pipeline_backward p = concat (map bwds (functions p))"
    by (auto simp: ComputePipeline_init_def Let_def split: if_splits sum.splits)
  have no_fp8: "\<not> is_fp8_dtype d"
    if "a \<in> set ops" "suffix ''_dtype'' n" "map_of (?final a) n = Some (DTypeValue d)" for a n d
    using that by (rule force_use_bf16_no_fp8)
  have other: "map_of (?final a) n = map_of (attrs a) n"
    if "\<not> suffix ''_dtype'' n" "n \<noteq> ''name''" for a n
    using that by (simp add: force_use_bf16_other name_ops_def name_ops_from_other_attr)
  have name: "map_of (?final a) ''name'' = map_of (?named a) ''name''" for a
    by (simp add: force_use_bf16_other name_not_dtype)
  have nth: "map_of (?final (ops ! i)) ''name'' = Some (StrValue (op_name_of i (cls (ops ! i))))"
    if "distinct ops" "i < length ops" for i
    using name_ops_from_nth [OF that, of cls 0 attrs] name [of "ops ! i"]
    by (simp add: name_ops_def)
  from split p(2-4) no_fp8 other name nth show ?thesis
    unfolding p(1) by blast
qed

lemma demo_split:
  "split_into_self_contained [Op (0::nat)] [Op 0] = Inr [SelfContainedOp [Op 0] [Op 0]]"
  by code_simp

lemma demo_init:
  "\<exists>p. ComputePipeline_init (\<lambda>a. ''Gemm'') no_fusion [0] demo_attrs
          \<lparr>fp8_enabled = False, world_size = 1\<rparr> = Inr p"
  by (simp add: ComputePipeline_init_def Let_def no_fusion_def demo_split)

text \<open>
  The theorem of claim C3 on one operation: its \<^verbatim>\<open>x_dtype\<close> becomes \<open>BFloat16\<close>, it is named
  \<^verbatim>\<open>0(Gemm)\<close>, and it makes one unit.
\<close>

theorem construction_downgrades_dtype_attributes_witness:
  "map_sum id (\<lambda>p. (map_of (op_attrs p 0) ''x_dtype'', map_of (op_attrs p 0) ''name'',
                    functions p, pipeline_forward p))
     (ComputePipeline_init (\<lambda>a. ''Gemm'') no_fusion [0] demo_attrs
        \<lparr>fp8_enabled = False, world_size = 1\<rparr>) =
   Inr (Some (DTypeValue BFloat16), Some (StrValue ''0(Gemm)''),
        [SelfContainedOp [Op 0] [Op 0]], [Op 0])"
proof -
  from demo_init obtain p where
    p: "ComputePipeline_init (\<lambda>a. ''Gemm'') no_fusion [0] demo_attrs
          \<lparr>fp8_enabled = False, world_size = 1\<rparr> = Inr p" by blast
  have "\<not> fp8_enabled \<lparr>fp8_enabled = False, world_size = 1\<rparr>" by simp
  from construction_downgrades_dtype_attributes [OF this p]
  have a: "op_attrs p = force_use_bf16 [0] (name_ops (\<lambda>a. ''Gemm'') [0] demo_attrs)"
    and f: "split_into_self_contained (no_fusion (op_attrs p) [0] ''forward'')
              (no_fusion (op_attrs p) [0] ''backward'') = Inr (functions p)"
    and w: "pipeline_forward p = concat (map fwds (functions p))"
    and n: "distinct [0::nat] \<longrightarrow>
              (\<forall>i < length [0::nat]. map_of (op_attrs p ([0] ! i)) ''name'' =
                 Some (StrValue (op_name_of i ''Gemm'')))"
    by blast+
  from a have "map_of (op_attrs p 0) ''x_dtype'' = Some (DTypeValue BFloat16)"
    by (simp add: demo_attrs_def name_ops_def setattr_def force_use_bf16_op_def
        force_use_bf16_attr_def is_fp8_dtype_def suffix_to_prefix)
  moreover from n have "map_of (op_attrs p 0) ''name'' = Some (StrValue ''0(Gemm)'')"
    by (simp add: op_name_of_def str_nat.simps digit_char_def)
  moreover from f have "functions p = [SelfContainedOp [Op 0] [Op 0]]"
    by (simp add: no_fusion_def demo_split)
  moreover from this w have "pipeline_forward p = [Op 0]" by simp
  ultimately show ?thesis using p by simp
qed

text \<open>
  Claim C3 as stated speaks of the attributes \<^verbatim>\<open>input_type\<close> and \<^verbatim>\<open>output_type\<close>. Their
  names do not end in \<^verbatim>\<open>_dtype\<close>, so the construction leaves an 8-bit floating type in
  them.
\<close>

theorem input_type_counterexample:
  "map_sum id (\<lambda>p. map_of (op_attrs p 0) ''input_type'')
     (ComputePipeline_init (\<lambda>a. ''Gemm'') no_fusion [0] demo_attrs
        \<lparr>fp8_enabled = False, world_size = 1\<rparr>) = Inr (Some (DTypeValue Float8E4M3))"
  by (simp add: ComputePipeline_init_def Let_def no_fusion_def demo_split demo_attrs_def name_ops_def
      setattr_def force_use_bf16_op_def force_use_bf16_attr_def is_fp8_dtype_def
      suffix_to_prefix)

section \<open>Properties of the operation descriptors\<close>

text \<open>
  Claim C5. Let the distributed group have size \<open>n\<close>, not zero. For a \<^verbatim>\<open>Gemm\<close> under
  row-parallel GEMM, \<^verbatim>\<open>set_input_shape\<close> raises \<^verbatim>\<open>ValueError\<close> when \<open>n\<close> does not divide
  \<open>in_features\<close>, and otherwise returns the operation with the shape stored and
  \<open>in_features\<close> divided by \<open>n\<close>; the same holds for column-parallel GEMM and
  \<open>out_features\<close>, and for a column-parallel \<^verbatim>\<open>Bias\<close> and \<open>features\<close>. The error comes out
  of \<^verbatim>\<open>set_input_shape\<close> itself, which describes and allocates no tensor.
\<close>

theorem set_input_shape_fails_fast:
  assumes "n \<noteq> 0"
    and "dist_group_size_attr g = Value (Some n)" and "dist_group_size_attr b = Value (Some n)"
  shows
    "(parallellism_attr g = Value RGEMM \<longrightarrow>
        Gemm_set_input_shape g s =
          (if in_features g mod n \<noteq> 0 then
             Inl (ValueError
               ''Number of input features must be divisible by the distributed group size'')
           else Inr (g\<lparr>input_shape_attr := Value s, in_features := in_features g div n\<rparr>))) \<and>
     (parallellism_attr g = Value CGEMM \<longrightarrow>
        Gemm_set_input_shape g s =
          (if out_features g mod n \<noteq> 0 then
             Inl (ValueError
               ''Number of output features must be divisible by the distributed group size'')
           else Inr (g\<lparr>input_shape_attr := Value s, out_features := out_features g div n\<rparr>))) \<and>
     (parallellism_attr b = Value COLP \<longrightarrow>
        Bias_set_input_shape b s =
          (if features b mod n \<noteq> 0 then
             Inl (ValueError
               ''Number of features must be divisible by the distributed group size'')
           else Inr (b\<lparr>input_shape_attr := Value s, features := features b div n\<rparr>)))"
  using assms
  by (simp add: Gemm_set_input_shape_def Gemm_pre_describe_tensors_def
      Bias_set_input_shape_def Bias_pre_describe_tensors_def parallellism_def dist_group_size_def
      NORMAL_def ROWP_def COLP_def CGEMM_def RGEMM_def)

text \<open>The theorem of claim C5 with a group of four workers.\<close>

theorem set_input_shape_fails_fast_witness:
  "Gemm_set_input_shape
     \<lparr>parallellism_attr = Value RGEMM, dist_group_size_attr = Value (Some 4),
      input_shape_attr = Unset, in_features = 10, out_features = 8\<rparr> [2, 10] =
     Inl (ValueError ''Number of input features must be divisible by the distributed group size'') \<and>
   Gemm_set_input_shape
     \<lparr>parallellism_attr = Value CGEMM, dist_group_size_attr = Value (Some 4),
      input_shape_attr = Unset, in_features = 10, out_features = 8\<rparr> [2, 10] =
     Inr \<lparr>parallellism_attr = Value CGEMM, dist_group_size_attr = Value (Some 4),
          input_shape_attr = Value [2, 10], in_features = 10, out_features = 2\<rparr> \<and>
   Bias_set_input_shape
     \<lparr>parallellism_attr = Value COLP, dist_group_size_attr = Value (Some 4),
      input_shape_attr = Unset, features = 6\<rparr> [2, 6] =
     Inl (ValueError ''Number of features must be divisible by the distributed group size'')"
proof -
  let ?r = "\<lparr>parallellism_attr = Value RGEMM, dist_group_size_attr = Value (Some 4),
      input_shape_attr = Unset, in_features = 10, out_features = 8\<rparr>"
  let ?c = "\<lparr>parallellism_attr = Value CGEMM, dist_group_size_attr = Value (Some 4),
      input_shape_attr = Unset, in_features = 10, out_features = 8\<rparr>"
  let ?b = "\<lparr>parallellism_attr = Value COLP, dist_group_size_attr = Value (Some 4),
      input_shape_attr = Unset, features = 6\<rparr>"
  have n: "(4::int) \<noteq> 0" by simp
  have dr: "dist_group_size_attr ?r = Value (Some 4)" and dc: "dist_group_size_attr ?c = Value (Some 4)"
    and db: "dist_group_size_attr ?b = Value (Some 4)" by simp_all
  from set_input_shape_fails_fast [OF n dr db, of "[2, 10]"]
    set_input_shape_fails_fast [OF n dc db, of "[2, 10]"]
    set_input_shape_fails_fast [OF n dc db, of "[2, 6]"]
  show ?thesis by simp
qed

text \<open>
  Claim C4, as the code has it. In a residual block, \<^verbatim>\<open>ResidualBegin\<close>'s training protocol
  copies \<open>x\<close> into \<open>fwd_residue\<close> and yields \<open>x\<close>; \<^verbatim>\<open>ResidualEnd\<close>'s inference (and the
  forward half of its training protocol) returns \<open>begin.fwd_residue\<close> holding
  \<open>fwd_residue + x\<close>; on backward \<^verbatim>\<open>ResidualEnd\<close> copies the gradient into \<open>bwd_residue\<close>
  and returns the gradient unchanged, and \<^verbatim>\<open>ResidualBegin\<close> adds the gradient it receives
  into \<open>end.bwd_residue\<close> and returns \<open>bwd_residue\<close>, the accumulated gradient.
\<close>

theorem residual_block:
  assumes "end_op b = Some e"
  shows "ResidualBegin_training b x s =
           Inr (s(fwd_residue b := s x), x,
                \<lambda>grad s'. (s'(bwd_residue e := s' (bwd_residue e) + s' grad), bwd_residue e)) \<and>
         ResidualEnd_inference e x s =
           (s(begin_fwd_residue e := s (begin_fwd_residue e) + s x), begin_fwd_residue e) \<and>
         ResidualEnd_training e x s =
           (s(begin_fwd_residue e := s (begin_fwd_residue e) + s x), begin_fwd_residue e,
            \<lambda>grad s'. (s'(bwd_residue e := s' grad), grad))"
  using assms
  by (simp add: ResidualBegin_training_def ResidualEnd_inference_def ResidualEnd_training_def
      f_copy_def f_add_def)

text \<open>The theorem of claim C4 on the example store.\<close>

theorem residual_block_witness:
  "ResidualEnd_inference \<lparr>begin_fwd_residue = 3, bwd_residue = 1\<rparr> 2 demo_store =
     (demo_store(3 := 7), 3) \<and>
   map_sum id (\<lambda>(s1, y, resume). (y, s1 3))
     (ResidualBegin_training
        \<lparr>end_op = Some \<lparr>begin_fwd_residue = 3, bwd_residue = 1\<rparr>, fwd_residue = 3\<rparr> 2 demo_store) =
   Inr (2, 7) \<and>
   (case ResidualEnd_training \<lparr>begin_fwd_residue = 3, bwd_residue = 1\<rparr> 0 demo_store of
      (s1, y, resume) \<Rightarrow> case resume 2 s1 of (s2, r) \<Rightarrow> (r, s2 r, s2 1)) = (2, 7, 7)"
proof -
  let ?e = "\<lparr>begin_fwd_residue = 3, bwd_residue = 1\<rparr>"
  let ?b = "\<lparr>end_op = Some ?e, fwd_residue = 3\<rparr>"
  have h: "end_op ?b = Some ?e" by simp
  from residual_block [OF h, of 2 demo_store] residual_block [OF h, of 0 demo_store]
  show ?thesis by (simp add: demo_store_def)
qed

text \<open>
  Claim C4 as stated has \<^verbatim>\<open>ResidualBegin\<close> return the gradient unchanged. It returns the
  buffer \<open>bwd_residue\<close>: with 5 in \<open>bwd_residue\<close> (buffer 1) and the gradient 7 (buffer 2),
  the tensor returned is buffer 1 and holds 12.
\<close>

theorem residual_begin_backward_counterexample:
  "map_sum id (\<lambda>(s1, y, resume). case resume 2 s1 of (s2, r) \<Rightarrow> (r, s2 r, s2 2))
     (ResidualBegin_training
        \<lparr>end_op = Some \<lparr>begin_fwd_residue = 3, bwd_residue = 1\<rparr>, fwd_residue = 3\<rparr> 0 demo_store) =
   Inr (1, 12, 7)"
  by (simp add: ResidualBegin_training_def f_copy_def f_add_def demo_store_def)

end
